theory Spec2Isabelle
  imports Complex_Main
begin

section \<open>Word features for the RNNLM: \<^verbatim>\<open>scripts/rnnlm/make_word_features.py\<close>\<close>

text \<open>
  The script reads a vocabulary, a table of unigram probabilities and a feature
  dictionary, and prints for every word its sparse feature vector. This theory embeds the
  three readers (\<^verbatim>\<open>read_vocab\<close>, \<^verbatim>\<open>read_unigram_probs\<close>, \<^verbatim>\<open>read_features\<close>) and the
  extractor (\<^verbatim>\<open>get_feature_list\<close>) as HOL functions.

  Conventions of the embedding:
  \<^item> a Python \<^verbatim>\<open>str\<close> is a \<^typ>\<open>string\<close>: one list element per character, so
    \<^term>\<open>length\<close> is \<^verbatim>\<open>len\<close>;
  \<^item> a Python \<^verbatim>\<open>int\<close> is an \<^typ>\<open>int\<close>;
  \<^item> a Python \<^verbatim>\<open>float\<close> is a value of a type variable \<open>'f\<close>; the float operations the
    script uses are the fields of a record \<open>'f float_ops\<close>, and every statement holds for
    every such record, so nothing is assumed about rounding;
  \<^item> the built-in conversions \<^verbatim>\<open>int(s)\<close> and \<^verbatim>\<open>float(s)\<close> are parameters \<open>pint\<close> and
    \<open>pfloat\<close> of the readers, returning \<^term>\<open>None\<close> where the built-in raises
    \<^verbatim>\<open>ValueError\<close>;
  \<^item> every \<^verbatim>\<open>assert\<close>, \<^verbatim>\<open>sys.exit\<close> and raised exception is a constructor of
    \<open>error\<close>, and a function that can fail returns \<open>error + 'a\<close>.
\<close>

subsection \<open>Errors, floats and values\<close>

datatype error =
    AssertFieldCount      \<comment> \<open>\<^verbatim>\<open>assert len(fields) == 2\<close>, \<^verbatim>\<open>assert(len(fields) in [2, 3, 4])\<close>\<close>
  | ExitDuplicateWord     \<comment> \<open>\<^verbatim>\<open>sys.exit(... "duplicated word" ...)\<close>\<close>
  | AssertIdGap           \<comment> \<open>\<^verbatim>\<open>assert idx == id\<close>\<close>
  | AssertMissingProb     \<comment> \<open>\<^verbatim>\<open>assert prob is not None\<close>\<close>
  | ExitFeatureType       \<comment> \<open>\<^verbatim>\<open>sys.exit(... "error feature type" ...)\<close>\<close>
  | ValueError            \<comment> \<open>\<^verbatim>\<open>int()\<close>, \<^verbatim>\<open>float()\<close>, \<^verbatim>\<open>math.log\<close>\<close>
  | IndexError            \<comment> \<open>list index out of range\<close>
  | ZeroDivisionError     \<comment> \<open>float division by zero\<close>

record 'f float_ops =
  flog :: "'f \<Rightarrow> 'f option"          \<comment> \<open>\<^verbatim>\<open>math.log(x)\<close>; \<^term>\<open>None\<close> where it raises \<^verbatim>\<open>ValueError\<close>\<close>
  fadd :: "'f \<Rightarrow> 'f \<Rightarrow> 'f"             \<comment> \<open>\<^verbatim>\<open>x + y\<close>\<close>
  fmul :: "'f \<Rightarrow> 'f \<Rightarrow> 'f"             \<comment> \<open>\<^verbatim>\<open>x * y\<close>\<close>
  fdiv :: "'f \<Rightarrow> 'f \<Rightarrow> 'f option"      \<comment> \<open>\<^verbatim>\<open>x / y\<close>; \<^term>\<open>None\<close> where it raises \<^verbatim>\<open>ZeroDivisionError\<close>\<close>
  fone :: "'f"                        \<comment> \<open>the float \<^verbatim>\<open>1.0\<close>, which \<^verbatim>\<open>x + 1\<close> adds to a float \<^verbatim>\<open>x\<close>\<close>

text \<open>A feature value is an \<^verbatim>\<open>int\<close> or a \<^verbatim>\<open>float\<close>.\<close>

datatype 'f val = IntV int | FloatV 'f

type_synonym 'f fvec = "int \<rightharpoonup> 'f val"

subsection \<open>The feature dictionary\<close>

text \<open>
  The dict \<^verbatim>\<open>feats\<close>. The keys \<^verbatim>\<open>'unigram'\<close> and \<^verbatim>\<open>'length'\<close> exist only once a line of
  that type was read (\<^verbatim>\<open>'unigram' in feats\<close>), so their fields are options, as is
  \<^verbatim>\<open>feats['constant']\<close>, which starts as \<^verbatim>\<open>None\<close>.
\<close>

record 'f feats =
  constant_feat :: "(int \<times> 'f) option"
  special :: "string \<rightharpoonup> int"
  unigram :: "(int \<times> 'f \<times> 'f) option"
  length_feat :: "int option"
  word :: "string \<rightharpoonup> int"
  match :: "string \<rightharpoonup> int"
  initial :: "string \<rightharpoonup> int"
  final :: "string \<rightharpoonup> int"
  min_ngram_order :: int
  max_ngram_order :: int

subsection \<open>Python lists and strings\<close>

text \<open>\<^verbatim>\<open>xs[i]\<close>: a negative index counts from the end; out of range raises.\<close>

definition py_index :: "'a list \<Rightarrow> int \<Rightarrow> error + 'a" where
  "py_index xs i =
     (if 0 \<le> i \<and> i < int (length xs) then Inr (xs ! nat i)
      else if i < 0 \<and> - int (length xs) \<le> i then Inr (xs ! nat (int (length xs) + i))
      else Inl IndexError)"

text \<open>\<^verbatim>\<open>xs[a:b]\<close>: both bounds are clamped to the list, a negative one counts from the end.\<close>

definition slice_bound :: "int \<Rightarrow> int \<Rightarrow> int" where
  "slice_bound n i = (if i < 0 then max 0 (n + i) else min n i)"

definition py_slice :: "'a list \<Rightarrow> int \<Rightarrow> int \<Rightarrow> 'a list" where
  "py_slice xs a b =
     (let n = int (length xs); lo = slice_bound n a; hi = slice_bound n b
      in take (nat (hi - lo)) (drop (nat lo) xs))"

subsection \<open>The extractor \<^verbatim>\<open>get_feature_list\<close>\<close>

text \<open>
  \<^verbatim>\<open>ans[feat_id] += 1\<close> on the \<^verbatim>\<open>defaultdict(int)\<close>: a missing key reads as the int 0; an
  int is incremented; a float gets the float 1.0 added.
\<close>

definition incr :: "'f float_ops \<Rightarrow> 'f fvec \<Rightarrow> int \<Rightarrow> 'f fvec" where
  "incr fl ans feat_id =
     (case ans feat_id of
        None \<Rightarrow> ans(feat_id \<mapsto> IntV 1)
      | Some (IntV n) \<Rightarrow> ans(feat_id \<mapsto> IntV (n + 1))
      | Some (FloatV x) \<Rightarrow> ans(feat_id \<mapsto> FloatV (fadd fl x (fone fl))))"

text \<open>
  Which of the three n-gram dicts the loop body looks the span up in: the variable
  \<^verbatim>\<open>ngram_feats\<close> is one of \<^verbatim>\<open>feats['initial']\<close>, \<^verbatim>\<open>feats['final']\<close>, \<^verbatim>\<open>feats['match']\<close>.
\<close>

datatype ngram_type = Initial | Final | Match

fun ngram_feats :: "'f feats \<Rightarrow> ngram_type \<Rightarrow> (string \<rightharpoonup> int)" where
  "ngram_feats feats Initial = initial feats"
| "ngram_feats feats Final = final feats"
| "ngram_feats feats Match = match feats"

text \<open>
  The first half of the loop body (lines 169 to 187): from \<^verbatim>\<open>pos\<close> and \<^verbatim>\<open>order\<close> to the
  dict and the clamped span, or \<^term>\<open>None\<close> where the body runs \<^verbatim>\<open>continue\<close>.
\<close>

definition classify :: "string \<Rightarrow> int \<Rightarrow> int \<Rightarrow> (ngram_type \<times> int \<times> int) option" where
  "classify w pos order =
     (let start = pos - order + 1;
          end_pos = pos + 1;
          n = int (length w)
      in if start < - 1 then None
         else if start < 0 \<and> end_pos > n then None
         else
           let (t, start, end_pos) =
                 (if start < 0 then (Initial, 0, end_pos)
                  else if end_pos > n then (Final, start, n)
                  else (Match, start, end_pos))
           in if start \<ge> end_pos then None else Some (t, start, end_pos))"

text \<open>The whole loop body: the second half (lines 189 to 192) looks the span up and counts.\<close>

definition ngram_step :: "'f float_ops \<Rightarrow> 'f feats \<Rightarrow> string \<Rightarrow> 'f fvec \<Rightarrow> int \<Rightarrow> int \<Rightarrow> 'f fvec" where
  "ngram_step fl feats w ans pos order =
     (case classify w pos order of
        None \<Rightarrow> ans
      | Some (t, start, end_pos) \<Rightarrow>
          (case ngram_feats feats t (py_slice w start end_pos) of
             None \<Rightarrow> ans
           | Some feat_id \<Rightarrow> incr fl ans feat_id))"

text \<open>
  The two nested loops: \<^verbatim>\<open>pos\<close> over \<^verbatim>\<open>range(len(word) + 1)\<close>, \<^verbatim>\<open>order\<close> over
  \<^verbatim>\<open>range(min_ngram_order, max_ngram_order + 1)\<close>.
\<close>

definition ngram_scan :: "'f float_ops \<Rightarrow> 'f feats \<Rightarrow> string \<Rightarrow> 'f fvec \<Rightarrow> 'f fvec" where
  "ngram_scan fl feats w ans =
     fold (\<lambda>pos ans.
             fold (\<lambda>order ans. ngram_step fl feats w ans pos order)
                  [min_ngram_order feats .. max_ngram_order feats] ans)
          [0 .. int (length w)] ans"

text \<open>The unigram feature (lines 152 to 157).\<close>

definition unigram_value :: "'f float_ops \<Rightarrow> 'f \<Rightarrow> 'f \<Rightarrow> 'f \<Rightarrow> error + 'f" where
  "unigram_value fl p entropy scale =
     (case flog fl p of
        None \<Rightarrow> Inl ValueError
      | Some logp \<Rightarrow>
          (case fdiv fl (fmul fl (fadd fl logp entropy) scale) entropy of
             None \<Rightarrow> Inl ZeroDivisionError
           | Some v \<Rightarrow> Inr v))"

definition get_feature_list ::
  "'f float_ops \<Rightarrow> 'f feats \<Rightarrow> 'f list \<Rightarrow> string \<Rightarrow> int \<Rightarrow> error + 'f fvec" where
  "get_feature_list fl feats unigram_probs w idx =
     (if idx = 0 then Inr Map.empty
      else
        let ans = (case constant_feat feats of
                     None \<Rightarrow> Map.empty
                   | Some (feat_id, v) \<Rightarrow> Map.empty(feat_id \<mapsto> FloatV v))
        in case special feats w of
             Some feat_id \<Rightarrow> Inr (ans(feat_id \<mapsto> IntV 1))
           | None \<Rightarrow>
               (case (case unigram feats of
                        None \<Rightarrow> Inr ans
                      | Some (feat_id, entropy, scale) \<Rightarrow>
                          (case py_index unigram_probs idx of
                             Inl e \<Rightarrow> Inl e
                           | Inr p \<Rightarrow>
                               (case unigram_value fl p entropy scale of
                                  Inl e \<Rightarrow> Inl e
                                | Inr v \<Rightarrow> Inr (ans(feat_id \<mapsto> FloatV v))))) of
                  Inl e \<Rightarrow> Inl e
                | Inr ans \<Rightarrow>
                    let ans = (case length_feat feats of
                                 None \<Rightarrow> ans
                               | Some feat_id \<Rightarrow> ans(feat_id \<mapsto> IntV (int (length w))));
                        ans = (case word feats w of
                                 None \<Rightarrow> ans
                               | Some feat_id \<Rightarrow> ans(feat_id \<mapsto> IntV 1))
                    in Inr (ngram_scan fl feats w ans)))"

subsection \<open>Lines and fields\<close>

text \<open>
  \<^verbatim>\<open>line.split()\<close>: the maximal runs of characters that are not whitespace. Of the
  characters a \<^typ>\<open>char\<close> can hold, Python's \<^verbatim>\<open>str.isspace\<close> holds for the codes below.
\<close>

definition is_space :: "char \<Rightarrow> bool" where
  "is_space c = (of_char c \<in> {9, 10, 11, 12, 13, 28, 29, 30, 31, 32, 133, 160 :: nat})"

fun split_from :: "string \<Rightarrow> string \<Rightarrow> string list" where
  "split_from cur [] = (if cur = [] then [] else [cur])"
| "split_from cur (c # cs) =
     (if is_space c then (if cur = [] then split_from [] cs else cur # split_from [] cs)
      else split_from (cur @ [c]) cs)"

definition py_split :: "string \<Rightarrow> string list" where
  "py_split line = split_from [] line"

text \<open>
  \<^verbatim>\<open>for line in f: fields = line.split(); ...\<close>: the body \<open>body\<close> maps the state and the
  fields (\<open>flds\<close>) of one line to the next state, and the first error ends the run.
\<close>

fun for_lines :: "('s \<Rightarrow> string list \<Rightarrow> error + 's) \<Rightarrow> 's \<Rightarrow> string list \<Rightarrow> error + 's" where
  "for_lines body s [] = Inr s"
| "for_lines body s (line # rest) =
     (case body s (py_split line) of
        Inl e \<Rightarrow> Inl e
      | Inr s' \<Rightarrow> for_lines body s' rest)"

text \<open>\<^verbatim>\<open>xs[i] = v\<close>.\<close>

definition py_set_item :: "'a list \<Rightarrow> int \<Rightarrow> 'a \<Rightarrow> error + 'a list" where
  "py_set_item xs i v =
     (if 0 \<le> i \<and> i < int (length xs) then Inr (xs[nat i := v])
      else if i < 0 \<and> - int (length xs) \<le> i then Inr (xs[nat (int (length xs) + i) := v])
      else Inl IndexError)"

text \<open>\<^verbatim>\<open>float(fields[i])\<close>.\<close>

definition float_field :: "(string \<Rightarrow> 'f option) \<Rightarrow> string list \<Rightarrow> int \<Rightarrow> error + 'f" where
  "float_field pfloat flds i =
     (case py_index flds i of
        Inl e \<Rightarrow> Inl e
      | Inr s \<Rightarrow> (case pfloat s of None \<Rightarrow> Inl ValueError | Some x \<Rightarrow> Inr x))"

subsection \<open>The reader \<^verbatim>\<open>read_vocab\<close>\<close>

text \<open>
  The dict \<^verbatim>\<open>vocab\<close> is the list of its items in insertion order: a word already in the
  dict ends the run before it would be stored again, so no key is ever overwritten.
\<close>

type_synonym vocab = "(string \<times> int) list"

definition vocab_line :: "(string \<Rightarrow> int option) \<Rightarrow> vocab \<Rightarrow> string list \<Rightarrow> error + vocab" where
  "vocab_line pint vocab flds =
     (if length flds \<noteq> 2 then Inl AssertFieldCount
      else if flds ! 0 \<in> set (map fst vocab) then Inl ExitDuplicateWord
      else case pint (flds ! 1) of
             None \<Rightarrow> Inl ValueError
           | Some i \<Rightarrow> Inr (vocab @ [(flds ! 0, i)]))"

definition read_vocab :: "(string \<Rightarrow> int option) \<Rightarrow> string list \<Rightarrow> error + vocab" where
  "read_vocab pint lines =
     (case for_lines (vocab_line pint) [] lines of
        Inl e \<Rightarrow> Inl e
      | Inr vocab \<Rightarrow>
          let sorted_ids = sort (map snd vocab)
          in if list_all (\<lambda>(idx, i). int idx = i) (enumerate 0 sorted_ids)
             then Inr vocab else Inl AssertIdGap)"

subsection \<open>The reader \<^verbatim>\<open>read_unigram_probs\<close>\<close>

definition probs_line ::
  "(string \<Rightarrow> int option) \<Rightarrow> (string \<Rightarrow> 'f option) \<Rightarrow> 'f option list \<Rightarrow> string list
     \<Rightarrow> error + 'f option list" where
  "probs_line pint pfloat unigram_probs flds =
     (if length flds \<noteq> 2 then Inl AssertFieldCount
      else case pint (flds ! 0) of
             None \<Rightarrow> Inl ValueError
           | Some idx \<Rightarrow>
               let unigram_probs =
                     (if idx \<ge> int (length unigram_probs)
                      then unigram_probs @
                           replicate (nat (idx - int (length unigram_probs) + 1)) None
                      else unigram_probs)
               in case pfloat (flds ! 1) of
                    None \<Rightarrow> Inl ValueError
                  | Some p \<Rightarrow> py_set_item unigram_probs idx (Some p))"

definition read_unigram_probs ::
  "(string \<Rightarrow> int option) \<Rightarrow> (string \<Rightarrow> 'f option) \<Rightarrow> string list \<Rightarrow> error + 'f list" where
  "read_unigram_probs pint pfloat lines =
     (case for_lines (probs_line pint pfloat) [] lines of
        Inl e \<Rightarrow> Inl e
      | Inr unigram_probs \<Rightarrow>
          if None \<in> set unigram_probs then Inl AssertMissingProb
          else Inr (map the unigram_probs))"

subsection \<open>The reader \<^verbatim>\<open>read_features\<close>\<close>

definition init_feats :: "'f feats" where
  "init_feats =
     \<lparr>constant_feat = None, special = Map.empty, unigram = None, length_feat = None,
      word = Map.empty, match = Map.empty, initial = Map.empty, final = Map.empty,
      min_ngram_order = 10000, max_ngram_order = - 1\<rparr>"

text \<open>\<^verbatim>\<open>feats[feat_type][ngram] = feat_id\<close>, for the four types that reach it.\<close>

definition set_ngram :: "string \<Rightarrow> string \<Rightarrow> int \<Rightarrow> 'f feats \<Rightarrow> 'f feats" where
  "set_ngram feat_type ngram feat_id feats =
     (if feat_type = ''word'' then feats\<lparr>word := (word feats)(ngram \<mapsto> feat_id)\<rparr>
      else if feat_type = ''match'' then feats\<lparr>match := (match feats)(ngram \<mapsto> feat_id)\<rparr>
      else if feat_type = ''initial'' then feats\<lparr>initial := (initial feats)(ngram \<mapsto> feat_id)\<rparr>
      else feats\<lparr>final := (final feats)(ngram \<mapsto> feat_id)\<rparr>)"

text \<open>Lines 119 to 122: the running maximum and minimum of the orders.\<close>

definition update_order :: "int \<Rightarrow> 'f feats \<Rightarrow> 'f feats" where
  "update_order order feats =
     (let feats = (if order > max_ngram_order feats
                   then feats\<lparr>max_ngram_order := order\<rparr> else feats)
      in if order < min_ngram_order feats
         then feats\<lparr>min_ngram_order := order\<rparr> else feats)"

definition features_line ::
  "(string \<Rightarrow> int option) \<Rightarrow> (string \<Rightarrow> 'f option) \<Rightarrow> 'f feats \<Rightarrow> string list
     \<Rightarrow> error + 'f feats" where
  "features_line pint pfloat feats flds =
     (if length flds \<notin> {2, 3, 4} then Inl AssertFieldCount
      else case pint (flds ! 0) of
             None \<Rightarrow> Inl ValueError
           | Some feat_id \<Rightarrow>
               let feat_type = flds ! 1
               in if feat_type = ''constant'' then
                    (case float_field pfloat flds 2 of
                       Inl e \<Rightarrow> Inl e
                     | Inr v \<Rightarrow> Inr (feats\<lparr>constant_feat := Some (feat_id, v)\<rparr>))
                  else if feat_type = ''special'' then
                    (case py_index flds 2 of
                       Inl e \<Rightarrow> Inl e
                     | Inr s \<Rightarrow> Inr (feats\<lparr>special := (special feats)(s \<mapsto> feat_id)\<rparr>))
                  else if feat_type = ''unigram'' then
                    (case float_field pfloat flds 2 of
                       Inl e \<Rightarrow> Inl e
                     | Inr entropy \<Rightarrow>
                         (case float_field pfloat flds 3 of
                            Inl e \<Rightarrow> Inl e
                          | Inr scale \<Rightarrow>
                              Inr (feats\<lparr>unigram := Some (feat_id, entropy, scale)\<rparr>)))
                  else if feat_type = ''length'' then
                    Inr (feats\<lparr>length_feat := Some feat_id\<rparr>)
                  else if feat_type \<in> {''word'', ''match'', ''initial'', ''final''} then
                    (case py_index flds 2 of
                       Inl e \<Rightarrow> Inl e
                     | Inr ngram \<Rightarrow>
                         let feats = set_ngram feat_type ngram feat_id feats
                         in if feat_type = ''word'' then Inr feats
                            else if feat_type \<in> {''initial'', ''final''}
                            then Inr (update_order (int (length ngram) + 1) feats)
                            else Inr (update_order (int (length ngram)) feats))
                  else Inl ExitFeatureType)"

definition read_features ::
  "(string \<Rightarrow> int option) \<Rightarrow> (string \<Rightarrow> 'f option) \<Rightarrow> string list \<Rightarrow> error + 'f feats" where
  "read_features pint pfloat lines = for_lines (features_line pint pfloat) init_feats lines"

subsection \<open>Sample conversions and float operations\<close>

text \<open>
  The statements below hold for every \<open>pint\<close>, \<open>pfloat\<close> and \<open>'f float_ops\<close>. To run
  the readers and the extractor on concrete files, this section gives one instance of
  each: decimal numerals, which \<^verbatim>\<open>int()\<close> and \<^verbatim>\<open>float()\<close> accept with these values,
  and the operations on the reals (floats without rounding).
\<close>

definition digit_of :: "char \<Rightarrow> nat option" where
  "digit_of c = (let k = (of_char c :: nat) in if 48 \<le> k \<and> k \<le> 57 then Some (k - 48) else None)"

fun digits_acc :: "nat \<Rightarrow> string \<Rightarrow> nat option" where
  "digits_acc a [] = Some a"
| "digits_acc a (c # cs) =
     (case digit_of c of None \<Rightarrow> None | Some d \<Rightarrow> digits_acc (10 * a + d) cs)"

definition dec_nat :: "string \<Rightarrow> nat option" where
  "dec_nat s = (if s = [] then None else digits_acc 0 s)"

definition dec_int :: "string \<Rightarrow> int option" where
  "dec_int s =
     (case s of
        [] \<Rightarrow> None
      | c # cs \<Rightarrow>
          if c = CHR ''-'' then map_option (\<lambda>n. - int n) (dec_nat cs)
          else map_option int (dec_nat s))"

definition dec_float :: "string \<Rightarrow> real option" where
  "dec_float s =
     (let a = takeWhile (\<lambda>c. c \<noteq> CHR ''.'') s;
          b = drop 1 (dropWhile (\<lambda>c. c \<noteq> CHR ''.'') s)
      in case (dec_nat a, if b = [] then Some 0 else dec_nat b) of
           (Some x, Some y) \<Rightarrow> Some (real x + real y / 10 ^ length b)
         | _ \<Rightarrow> None)"

definition real_ops :: "real float_ops" where
  "real_ops =
     \<lparr>flog = (\<lambda>x. if 0 < x then Some (ln x) else None),
      fadd = (\<lambda>x y. x + y), fmul = (\<lambda>x y. x * y),
      fdiv = (\<lambda>x y. if y = 0 then None else Some (x / y)),
      fone = 1\<rparr>"

subsection \<open>Notions used in the statements and proofs\<close>

text \<open>
  The loop body at \<open>(pos, order)\<close> counts feature \<open>f\<close>: it reaches line 192 with
  \<^verbatim>\<open>feat_id = f\<close>.
\<close>

definition hit :: "'f feats \<Rightarrow> string \<Rightarrow> int \<Rightarrow> int \<Rightarrow> int \<Rightarrow> bool" where
  "hit feats w f pos order =
     (case classify w pos order of
        None \<Rightarrow> False
      | Some (t, start, end_pos) \<Rightarrow> ngram_feats feats t (py_slice w start end_pos) = Some f)"

text \<open>What \<^verbatim>\<open>ans[f] += 1\<close> makes of the value read at \<open>f\<close>.\<close>

definition bump :: "'f float_ops \<Rightarrow> 'f val option \<Rightarrow> 'f val option" where
  "bump fl v =
     (case v of
        None \<Rightarrow> Some (IntV 1)
      | Some (IntV n) \<Rightarrow> Some (IntV (n + 1))
      | Some (FloatV x) \<Rightarrow> Some (FloatV (fadd fl x (fone fl))))"

text \<open>How often the two loops count feature \<open>f\<close>.\<close>

definition scan_count :: "'f feats \<Rightarrow> string \<Rightarrow> int \<Rightarrow> nat" where
  "scan_count feats w f =
     sum_list (map (\<lambda>pos. length (filter (hit feats w f pos)
                                   [min_ngram_order feats .. max_ngram_order feats]))
                   [0 .. int (length w)])"

text \<open>
  The positions \<open>i\<close> of the word with \<^verbatim>\<open>word[i : i + len(g)] == g\<close>, the slice lying
  inside the word.
\<close>

definition occurrences :: "string \<Rightarrow> string \<Rightarrow> nat list" where
  "occurrences g w =
     filter (\<lambda>i. take (length g) (drop i w) = g) [0 ..< length w + 1 - length g]"

text \<open>
  The words and the ids of a vocabulary file whose lines have two fields each, the second
  one an integer.
\<close>

definition vocab_words :: "string list \<Rightarrow> string list" where
  "vocab_words lines = map (\<lambda>line. py_split line ! 0) lines"

definition vocab_ids :: "(string \<Rightarrow> int option) \<Rightarrow> string list \<Rightarrow> int list" where
  "vocab_ids pint lines = map (\<lambda>line. the (pint (py_split line ! 1))) lines"

text \<open>
  The least number of fields a line of the feature dictionary needs for the reader to
  index no field beyond the end: \<^verbatim>\<open>fields[3]\<close> is read for \<^verbatim>\<open>unigram\<close>, \<^verbatim>\<open>fields[2]\<close> for
  the types with one payload field.
\<close>

definition min_fields :: "string \<Rightarrow> nat" where
  "min_fields feat_type =
     (if feat_type = ''unigram'' then 4
      else if feat_type \<in> {''constant'', ''special'', ''word'', ''match'', ''initial'', ''final''}
      then 3 else 2)"

text \<open>
  The orders of the n-gram lines of a feature dictionary, as the specification words
  them: the character length of the n-gram for a \<^verbatim>\<open>match\<close> line, the length plus one for
  an \<^verbatim>\<open>initial\<close> or \<^verbatim>\<open>final\<close> line, nothing for any other line.
\<close>

definition line_orders :: "string list \<Rightarrow> int list" where
  "line_orders flds =
     (if flds ! 1 = ''match'' then [int (length (flds ! 2))]
      else if flds ! 1 \<in> {''initial'', ''final''} then [int (length (flds ! 2)) + 1]
      else [])"

definition ngram_orders :: "string list \<Rightarrow> int list" where
  "ngram_orders lines = concat (map (\<lambda>line. line_orders (py_split line)) lines)"

text \<open>An n-gram of 10001 characters.\<close>

definition long_ngram :: string where
  "long_ngram = replicate 10001 (CHR ''a'')"

text \<open>
  The ids and the probabilities of a probability file whose lines have two fields each,
  an integer and a float.
\<close>

definition prob_ids :: "(string \<Rightarrow> int option) \<Rightarrow> string list \<Rightarrow> int list" where
  "prob_ids pint lines = map (\<lambda>line. the (pint (py_split line ! 0))) lines"

definition prob_vals :: "(string \<Rightarrow> 'f option) \<Rightarrow> string list \<Rightarrow> 'f list" where
  "prob_vals pfloat lines = map (\<lambda>line. the (pfloat (py_split line ! 1))) lines"

text \<open>
  The length of the table the reader builds from lines with these ids, none negative: one
  more than the largest id, and 0 for the empty file.
\<close>

definition table_size :: "int list \<Rightarrow> nat" where
  "table_size ids = Max (set (0 # map (\<lambda>i. nat i + 1) ids))"

text \<open>The table \<^verbatim>\<open>unigram_probs\<close> while it is read, as a map from indices to entries.\<close>

definition slots :: "'a option list \<Rightarrow> int \<Rightarrow> 'a option" where
  "slots tbl i = (if 0 \<le> i \<and> i < int (length tbl) then tbl ! nat i else None)"

section \<open>Properties of the extractor\<close>

text \<open>
  C3. For a word whose id is 0 the extractor returns the empty feature vector, whatever
  the feature dictionary, the probability table and the word are.
\<close>

theorem id_zero_empty:
  "get_feature_list fl feats unigram_probs w 0 = Inr Map.empty"
  by (simp add: get_feature_list_def)

subsection \<open>Features the n-gram scan leaves alone\<close>

lemma incr_same:
  "incr fl ans f f =
     (case ans f of
        None \<Rightarrow> Some (IntV 1)
      | Some (IntV n) \<Rightarrow> Some (IntV (n + 1))
      | Some (FloatV x) \<Rightarrow> Some (FloatV (fadd fl x (fone fl))))"
  by (simp add: incr_def split: option.split val.split)

lemma incr_other: "f' \<noteq> f \<Longrightarrow> incr fl ans f' f = ans f"
  by (simp add: incr_def split: option.split val.split)

lemma ngram_feats_ran:
  "ngram_feats feats t s = Some f' \<Longrightarrow>
     f' \<in> ran (initial feats) \<union> ran (final feats) \<union> ran (match feats)"
  by (cases t) (auto simp: ran_def)

lemma ngram_step_other:
  assumes "f \<notin> ran (initial feats) \<union> ran (final feats) \<union> ran (match feats)"
  shows "ngram_step fl feats w ans pos order f = ans f"
proof (cases "classify w pos order")
  case None
  then show ?thesis by (simp add: ngram_step_def)
next
  case (Some c)
  obtain t s e where c: "c = (t, s, e)" by (cases c)
  show ?thesis
  proof (cases "ngram_feats feats t (py_slice w s e)")
    case None
    with Some c show ?thesis by (simp add: ngram_step_def)
  next
    case (Some f')
    with ngram_feats_ran[OF Some] assms have "f' \<noteq> f" by auto
    with Some \<open>classify w pos order = Some c\<close> c show ?thesis
      by (simp add: ngram_step_def incr_other)
  qed
qed

lemma fold_keeps:
  assumes "\<And>x a. step x a f = a f"
  shows "fold step xs a f = a f"
  using assms by (induction xs arbitrary: a) simp_all

lemma ngram_scan_other:
  assumes "f \<notin> ran (initial feats) \<union> ran (final feats) \<union> ran (match feats)"
  shows "ngram_scan fl feats w ans f = ans f"
  unfolding ngram_scan_def
  by (rule fold_keeps, rule fold_keeps, rule ngram_step_other[OF assms])

subsection \<open>Special words\<close>

text \<open>
  C1, as the source has it. The constant feature is stored before the special words are
  looked up (lines 141 to 150), so a special word keeps it: the dictionary below has the
  constant feature 0 and the special word \<^verbatim>\<open></s>\<close> with feature 2, and the vector of
  \<^verbatim>\<open></s>\<close> holds both.
\<close>

theorem special_word_keeps_constant:
  "get_feature_list real_ops
     (init_feats\<lparr>constant_feat := Some (0, 1), special := [''</s>'' \<mapsto> 2]\<rparr>) [] ''</s>'' 3
     = Inr [0 \<mapsto> FloatV 1, 2 \<mapsto> IntV 1]
   \<and> [0 \<mapsto> FloatV (1::real), 2 \<mapsto> IntV 1] (0::int) = Some (FloatV 1)"
  by (simp add: get_feature_list_def init_feats_def)

text \<open>
  C1, amended. For a word with a nonzero id that is a key of the special dict, the vector
  maps the word's special feature id to the int 1 and holds, besides that, only the
  constant feature when one is configured (under the constant's id, unless that is the
  special feature id itself, which then maps to 1). No unigram, length, word or n-gram
  feature is added, and no table is read.
\<close>

theorem special_word_vector:
  assumes "idx \<noteq> 0" and "special feats w = Some sid"
  shows "get_feature_list fl feats unigram_probs w idx =
           Inr ((case constant_feat feats of
                   None \<Rightarrow> Map.empty
                 | Some (cid, v) \<Rightarrow> Map.empty(cid \<mapsto> FloatV v))(sid \<mapsto> IntV 1))"
  using assms by (simp add: get_feature_list_def)

theorem special_word_vector_witness:
  "get_feature_list real_ops
     (init_feats\<lparr>constant_feat := Some (0, 1), special := [''</s>'' \<mapsto> 2],
                  length_feat := Some 5, match := [''s'' \<mapsto> 9],
                  min_ngram_order := 1, max_ngram_order := 1\<rparr>) [] ''</s>'' 3
     = Inr [0 \<mapsto> FloatV 1, 2 \<mapsto> IntV 1]"
  using special_word_vector
    [of 3 "init_feats\<lparr>constant_feat := Some (0, 1), special := [''</s>'' \<mapsto> 2],
                        length_feat := Some 5, match := [''s'' \<mapsto> 9],
                        min_ngram_order := 1, max_ngram_order := 1\<rparr>"
        "''</s>''" 2 real_ops "[]"]
  by (simp add: init_feats_def)

subsection \<open>The whole-word span\<close>

text \<open>
  C5. A candidate span with \<^verbatim>\<open>start < 0\<close> and \<^verbatim>\<open>end > len(word)\<close> is skipped: the loop
  body runs \<^verbatim>\<open>continue\<close> before any dict is read, so it leaves the vector as it was,
  whatever the three n-gram dicts and the word dict hold. The only feature such a span
  can have contributed is the word feature stored before the scan.
\<close>

theorem whole_word_span_skipped:
  assumes "pos - order + 1 < 0" and "pos + 1 > int (length w)"
  shows "classify w pos order = None \<and> ngram_step fl feats w ans pos order = ans"
  using assms by (simp add: classify_def ngram_step_def Let_def)

theorem whole_word_span_skipped_witness:
  "classify ''ab'' 2 4 = None
   \<and> ngram_step real_ops
        (init_feats\<lparr>word := [''ab'' \<mapsto> 1], match := [''ab'' \<mapsto> 9],
                     initial := [''ab'' \<mapsto> 7], final := [''ab'' \<mapsto> 8],
                     min_ngram_order := 2, max_ngram_order := 4\<rparr>)
        ''ab'' [1 \<mapsto> IntV 1] 2 4 = [1 \<mapsto> IntV 1]"
  using whole_word_span_skipped
    [of 2 4 "''ab''" real_ops
        "init_feats\<lparr>word := [''ab'' \<mapsto> 1], match := [''ab'' \<mapsto> 9],
                      initial := [''ab'' \<mapsto> 7], final := [''ab'' \<mapsto> 8],
                      min_ngram_order := 2, max_ngram_order := 4\<rparr>"
        "[1 \<mapsto> IntV 1]"]
  by simp

subsection \<open>The unigram feature\<close>

text \<open>
  C9. For a word with a nonzero id that is not special, with the unigram feature
  \<open>(fid, entropy, scale)\<close> configured, \<open>p\<close> the word's entry \<^verbatim>\<open>unigram_probs[idx]\<close>,
  and \<^verbatim>\<open>math.log(p)\<close> and the division by \<open>entropy\<close> defined, the vector maps \<open>fid\<close>
  to the float \<^verbatim>\<open>(logp + entropy) * scale / entropy\<close>, computed in this order with the
  float operations. The feature id \<open>fid\<close> is the unigram feature's alone: no length, word
  or n-gram entry of the dictionary carries it.
\<close>

theorem unigram_feature_value:
  assumes "idx \<noteq> 0" and "special feats w = None"
    and "unigram feats = Some (fid, entropy, scale)"
    and "py_index unigram_probs idx = Inr p"
    and "flog fl p = Some logp"
    and "fdiv fl (fmul fl (fadd fl logp entropy) scale) entropy = Some v"
    and "length_feat feats \<noteq> Some fid" and "word feats w \<noteq> Some fid"
    and "fid \<notin> ran (initial feats) \<union> ran (final feats) \<union> ran (match feats)"
  shows "\<exists>ans. get_feature_list fl feats unigram_probs w idx = Inr ans
               \<and> ans fid = Some (FloatV v)"
  using assms
  by (auto simp: get_feature_list_def unigram_value_def ngram_scan_other Let_def
           split: option.split)

theorem unigram_feature_value_witness:
  "\<exists>ans. get_feature_list real_ops
            (init_feats\<lparr>unigram := Some (3, 2, 4), length_feat := Some 5,
                         match := [''at'' \<mapsto> 9],
                         min_ngram_order := 2, max_ngram_order := 2\<rparr>)
            [1 / 2, 1] ''cat'' 1 = Inr ans
         \<and> ans 3 = Some (FloatV 4)"
  using unigram_feature_value
    [of 1 "init_feats\<lparr>unigram := Some (3, 2, 4), length_feat := Some 5,
                        match := [''at'' \<mapsto> 9],
                        min_ngram_order := 2, max_ngram_order := 2\<rparr>"
        "''cat''" 3 2 4 "[1 / 2, 1]" 1 real_ops 0 4]
  by (simp add: init_feats_def py_index_def real_ops_def)

subsection \<open>Counting the hits of the n-gram scan\<close>

lemma ngram_step_at:
  "ngram_step fl feats w ans pos order f =
     (if hit feats w f pos order then bump fl (ans f) else ans f)"
proof (cases "classify w pos order")
  case None
  then show ?thesis by (simp add: ngram_step_def hit_def)
next
  case (Some c)
  obtain t s e where c: "c = (t, s, e)" by (cases c)
  show ?thesis
  proof (cases "ngram_feats feats t (py_slice w s e)")
    case None
    with Some c show ?thesis by (simp add: ngram_step_def hit_def)
  next
    case (Some f')
    with \<open>classify w pos order = Some c\<close> c show ?thesis
      by (cases "f' = f") (simp_all add: ngram_step_def hit_def incr_other incr_same bump_def)
  qed
qed

lemma fold_funpow:
  assumes "\<And>x a. step x a f = (g ^^ c x) (a f)"
  shows "fold step xs a f = (g ^^ sum_list (map c xs)) (a f)"
proof (induction xs arbitrary: a)
  case Nil
  show ?case by simp
next
  case (Cons x xs)
  have "fold step (x # xs) a f = (g ^^ sum_list (map c xs)) ((g ^^ c x) (a f))"
    by (simp add: Cons.IH assms)
  also have "\<dots> = (g ^^ (sum_list (map c xs) + c x)) (a f)"
    by (simp add: funpow_add)
  finally show ?case by (simp add: add.commute)
qed

lemma sum_list_indicator:
  "sum_list (map (\<lambda>x. if P x then 1 else 0) xs) = length (filter P xs)"
  by (induction xs) simp_all

lemma fold_orders:
  "fold (\<lambda>order ans. ngram_step fl feats w ans pos order) os a f =
     (bump fl ^^ length (filter (hit feats w f pos) os)) (a f)"
proof -
  have "fold (\<lambda>order ans. ngram_step fl feats w ans pos order) os a f =
          (bump fl ^^ sum_list (map (\<lambda>order. if hit feats w f pos order then 1 else 0) os)) (a f)"
    by (rule fold_funpow) (simp add: ngram_step_at)
  then show ?thesis by (simp add: sum_list_indicator)
qed

lemma ngram_scan_count:
  "ngram_scan fl feats w ans f = (bump fl ^^ scan_count feats w f) (ans f)"
  unfolding ngram_scan_def scan_count_def
  by (rule fold_funpow) (rule fold_orders)

lemma filter_eq_distinct:
  "distinct xs \<Longrightarrow> length (filter (\<lambda>x. x = a) xs) = (if a \<in> set xs then 1 else 0)"
  by (induction xs) auto

lemma count_single_order:
  assumes H: "\<And>pos order. pos \<in> set ps \<Longrightarrow> H pos order = (order = o0 \<and> Q pos)"
    and d: "distinct os"
  shows "sum_list (map (\<lambda>pos. length (filter (H pos) os)) ps) =
           (if o0 \<in> set os then length (filter Q ps) else 0)"
proof -
  have inner: "length (filter (H pos) os) = (if Q pos \<and> o0 \<in> set os then 1 else 0)"
    if "pos \<in> set ps" for pos
  proof (cases "Q pos")
    case True
    then have "H pos = (\<lambda>x. x = o0)" by (intro ext) (simp add: H that)
    with d True show ?thesis by (simp add: filter_eq_distinct)
  next
    case False
    then have "H pos = (\<lambda>x. False)" by (intro ext) (simp add: H that)
    with False show ?thesis by simp
  qed
  have "map (\<lambda>pos. length (filter (H pos) os)) ps =
          map (\<lambda>pos. if Q pos \<and> o0 \<in> set os then 1 else 0) ps"
    by (rule map_cong) (simp_all add: inner)
  then have "sum_list (map (\<lambda>pos. length (filter (H pos) os)) ps) =
          sum_list (map (\<lambda>pos. if Q pos \<and> o0 \<in> set os then 1 else 0) ps)"
    by (simp only:)
  also have "\<dots> = (if o0 \<in> set os then length (filter Q ps) else 0)"
    by (cases "o0 \<in> set os") (simp_all add: sum_list_indicator)
  finally show ?thesis .
qed

lemma classify_cases:
  "classify w pos order = Some (t, s, e) \<longleftrightarrow>
     (t = Initial \<and> pos - order + 1 = - 1 \<and> pos + 1 \<le> int (length w) \<and> s = 0 \<and> e = pos + 1 \<and> 0 < e)
   \<or> (t = Final \<and> 0 \<le> pos - order + 1 \<and> int (length w) < pos + 1 \<and> s = pos - order + 1
        \<and> e = int (length w) \<and> s < e)
   \<or> (t = Match \<and> 0 \<le> pos - order + 1 \<and> pos + 1 \<le> int (length w) \<and> s = pos - order + 1
        \<and> e = pos + 1 \<and> s < e)"
  by (auto simp: classify_def Let_def)

lemma py_slice_inside:
  "0 \<le> s \<Longrightarrow> s \<le> e \<Longrightarrow> e \<le> int (length w) \<Longrightarrow>
     py_slice w s e = take (nat (e - s)) (drop (nat s) w)"
  by (simp add: py_slice_def slice_bound_def Let_def min_def)


lemma hit_iff:
  "hit feats w f pos order \<longleftrightarrow>
     (\<exists>t s e. classify w pos order = Some (t, s, e) \<and> ngram_feats feats t (py_slice w s e) = Some f)"
  by (auto simp: hit_def split: option.splits)

lemma hit_match_only:
  assumes g: "match feats g = Some f"
    and only: "\<And>s. match feats s = Some f \<Longrightarrow> s = g"
    and ni: "f \<notin> ran (initial feats)" and nf: "f \<notin> ran (final feats)"
  shows "hit feats w f pos order \<longleftrightarrow>
           order = int (length g) \<and>
           (g \<noteq> [] \<and> 0 \<le> pos - int (length g) + 1 \<and> pos + 1 \<le> int (length w) \<and>
            take (length g) (drop (nat (pos - int (length g) + 1)) w) = g)"
    (is "?L \<longleftrightarrow> ?R")
proof
  assume ?L
  then obtain t s e where c: "classify w pos order = Some (t, s, e)"
    and l: "ngram_feats feats t (py_slice w s e) = Some f"
    by (auto simp: hit_iff)
  from l ni nf have t: "t = Match" by (cases t) (auto simp: ran_def)
  with c have b: "0 \<le> pos - order + 1" "pos + 1 \<le> int (length w)"
    "s = pos - order + 1" "e = pos + 1" "s < e"
    by (auto simp: classify_cases)
  then have sl: "py_slice w s e = take (nat order) (drop (nat (pos - order + 1)) w)"
    by (simp add: py_slice_inside)
  from l t only have "py_slice w s e = g" by simp
  with sl have eq: "take (nat order) (drop (nat (pos - order + 1)) w) = g" by simp
  have "length (take (nat order) (drop (nat (pos - order + 1)) w)) =
          min (nat order) (length w - nat (pos - order + 1))" by simp
  with eq have "length g = min (nat order) (length w - nat (pos - order + 1))" by simp
  with b have len: "int (length g) = order" by (auto simp: min_def)
  with b eq show ?R by auto
next
  assume r: ?R
  then have "g \<noteq> []" by simp
  then have "Suc 0 \<le> length g" by (cases g) simp_all
  with r have "classify w pos order = Some (Match, pos - order + 1, pos + 1)"
    by (auto simp: classify_cases)
  moreover from r have "py_slice w (pos - order + 1) (pos + 1) = g"
    by (simp add: py_slice_inside)
  ultimately show ?L using g by (auto simp: hit_iff)
qed


lemma match_positions:
  assumes "g \<noteq> []"
  shows "length (filter (\<lambda>pos. g \<noteq> [] \<and> 0 \<le> pos - int (length g) + 1 \<and> pos + 1 \<le> int (length w) \<and>
                         take (length g) (drop (nat (pos - int (length g) + 1)) w) = g)
                 [0 .. int (length w)]) = length (occurrences g w)"
proof -
  let ?L = "length g" and ?n = "length w"
  let ?Q = "\<lambda>pos. g \<noteq> [] \<and> 0 \<le> pos - int ?L + 1 \<and> pos + 1 \<le> int ?n \<and>
                  take ?L (drop (nat (pos - int ?L + 1)) w) = g"
  let ?occ = "\<lambda>i. take ?L (drop i w) = g"
  let ?A = "{i. ?occ i} \<inter> set [0 ..< ?n + 1 - ?L]"
  let ?B = "{pos. ?Q pos} \<inter> set [0 .. int ?n]"
  let ?h = "\<lambda>i. int i + int ?L - 1"
  from assms have L: "Suc 0 \<le> ?L" by (cases g) simp_all
  have "?B = ?h ` ?A"
  proof (intro set_eqI iffI)
    fix pos assume "pos \<in> ?B"
    then have q: "?Q pos" and r: "0 \<le> pos" "pos \<le> int ?n" by auto
    let ?i = "nat (pos - int ?L + 1)"
    from q have "?h ?i = pos" by simp
    moreover from q have "?occ ?i" by simp
    moreover from q have "?i < ?n + 1 - ?L" by auto
    ultimately show "pos \<in> ?h ` ?A" by (intro image_eqI[where x = ?i]) auto
  next
    fix pos assume "pos \<in> ?h ` ?A"
    then obtain i where i: "?occ i" "i < ?n + 1 - ?L" and pos: "pos = ?h i" by auto
    from pos have "nat (pos - int ?L + 1) = i" by simp
    with i pos L assms show "pos \<in> ?B" by auto
  qed
  moreover have "inj_on ?h ?A" by (auto simp: inj_on_def)
  ultimately have "card ?B = card ?A" by (simp add: card_image)
  moreover have "length (filter ?Q [0 .. int ?n]) = card ?B"
    by (rule distinct_length_filter) simp
  moreover have "length (occurrences g w) = card ?A"
    unfolding occurrences_def by (rule distinct_length_filter) simp
  ultimately show ?thesis by simp
qed

lemma bump_twice: "(bump fl ^^ 2) None = Some (IntV 2)"
  by (simp add: bump_def numeral_2_eq_2)

subsection \<open>Repeated n-grams\<close>

text \<open>
  C6. For a word with a nonzero id that is not special: if the n-gram \<open>g\<close> is a key of
  the match dict with feature id \<open>f\<close>, and \<open>g\<close> occurs in the word at two positions,
  the vector maps \<open>f\<close> to the int 2. The presuppositions are spelled out: the orders
  scanned include \<^verbatim>\<open>len(g)\<close> (\<^verbatim>\<open>read_features\<close> sees to that), \<open>f\<close> is the id of this
  entry alone, and the extractor returns a vector (the unigram feature may raise).
\<close>

theorem repeated_match_sums:
  assumes idx: "idx \<noteq> 0" and nsp: "special feats w = None"
    and g: "match feats g = Some f" and ne: "g \<noteq> []"
    and occ: "length (occurrences g w) = 2"
    and lo: "min_ngram_order feats \<le> int (length g)"
    and hi: "int (length g) \<le> max_ngram_order feats"
    and only: "\<forall>s. match feats s = Some f \<longrightarrow> s = g"
    and ni: "f \<notin> ran (initial feats)" and nf: "f \<notin> ran (final feats)"
    and nc: "map_option fst (constant_feat feats) \<noteq> Some f"
    and nu: "map_option fst (unigram feats) \<noteq> Some f"
    and nl: "length_feat feats \<noteq> Some f" and nw: "word feats w \<noteq> Some f"
    and run: "get_feature_list fl feats unigram_probs w idx = Inr ans"
  shows "ans f = Some (IntV 2)"
proof -
  from only have only': "\<And>s. match feats s = Some f \<Longrightarrow> s = g" by blast
  have hit: "\<And>pos order. hit feats w f pos order \<longleftrightarrow>
           order = int (length g) \<and>
           (g \<noteq> [] \<and> 0 \<le> pos - int (length g) + 1 \<and> pos + 1 \<le> int (length w) \<and>
            take (length g) (drop (nat (pos - int (length g) + 1)) w) = g)"
    by (rule hit_match_only[OF g only' ni nf])
  have "scan_count feats w f =
          (if int (length g) \<in> set [min_ngram_order feats .. max_ngram_order feats]
           then length (filter (\<lambda>pos. g \<noteq> [] \<and> 0 \<le> pos - int (length g) + 1 \<and> pos + 1 \<le> int (length w) \<and>
                         take (length g) (drop (nat (pos - int (length g) + 1)) w) = g)
                 [0 .. int (length w)]) else 0)"
    unfolding scan_count_def by (rule count_single_order) (simp_all add: hit)
  with lo hi occ have k: "scan_count feats w f = 2" by (simp add: match_positions[OF ne])
  from run idx nsp nc nu nl nw
  obtain a0 where a0: "ans = ngram_scan fl feats w a0" and none: "a0 f = None"
    by (auto simp: get_feature_list_def Let_def split: option.splits sum.splits if_splits)
  show ?thesis by (simp add: a0 ngram_scan_count k none bump_twice)
qed

theorem repeated_match_sums_witness:
  "get_feature_list real_ops
     (init_feats\<lparr>length_feat := Some 5, match := [''an'' \<mapsto> 9],
                  min_ngram_order := 2, max_ngram_order := 2\<rparr>) [] ''banana'' 1
     = Inr (ngram_scan real_ops
              (init_feats\<lparr>length_feat := Some 5, match := [''an'' \<mapsto> 9],
                           min_ngram_order := 2, max_ngram_order := 2\<rparr>)
              ''banana'' [5 \<mapsto> IntV 6])
   \<and> ngram_scan real_ops
        (init_feats\<lparr>length_feat := Some 5, match := [''an'' \<mapsto> 9],
                     min_ngram_order := 2, max_ngram_order := 2\<rparr>)
        ''banana'' [5 \<mapsto> IntV 6] 9 = Some (IntV 2)"
proof -
  let ?F = "(init_feats :: real feats)\<lparr>length_feat := Some 5, match := [''an'' \<mapsto> 9],
                  min_ngram_order := 2, max_ngram_order := 2\<rparr>"
  have run: "get_feature_list real_ops ?F [] ''banana'' 1 =
               Inr (ngram_scan real_ops ?F ''banana'' [5 \<mapsto> IntV 6])"
    by (simp add: get_feature_list_def init_feats_def)
  have occ: "length (occurrences ''an'' ''banana'') = 2"
    by code_simp
  have "ngram_scan real_ops ?F ''banana'' [5 \<mapsto> IntV 6] 9 = Some (IntV 2)"
    by (rule repeated_match_sums[where g = "''an''", OF _ _ _ _ occ _ _ _ _ _ _ _ _ _ run])
       (simp_all add: init_feats_def)
  with run show ?thesis by simp
qed


subsection \<open>Initial and final n-grams\<close>

lemma hit_initial_only:
  assumes g: "initial feats g = Some f"
    and only: "\<And>s. initial feats s = Some f \<Longrightarrow> s = g"
    and nf: "f \<notin> ran (final feats)" and nm: "f \<notin> ran (match feats)"
  shows "hit feats w f pos order \<longleftrightarrow>
           order = int (length g) + 1 \<and>
           (pos = int (length g) - 1 \<and> g \<noteq> [] \<and> take (length g) w = g)"
    (is "?L \<longleftrightarrow> ?R")
proof
  assume ?L
  then obtain t s e where c: "classify w pos order = Some (t, s, e)"
    and l: "ngram_feats feats t (py_slice w s e) = Some f"
    by (auto simp: hit_iff)
  from l nf nm have t: "t = Initial" by (cases t) (auto simp: ran_def)
  with c have b: "pos - order + 1 = - 1" "pos + 1 \<le> int (length w)" "s = 0" "e = pos + 1" "0 < e"
    by (auto simp: classify_cases)
  then have sl: "py_slice w s e = take (nat (pos + 1)) w"
    by (simp add: py_slice_inside)
  from l t only have "py_slice w s e = g" by simp
  with sl have eq: "take (nat (pos + 1)) w = g" by simp
  have "length (take (nat (pos + 1)) w) = min (nat (pos + 1)) (length w)" by simp
  with eq have "length g = min (nat (pos + 1)) (length w)" by simp
  with b have len: "int (length g) = pos + 1" by (auto simp: min_def)
  then have "nat (pos + 1) = length g" by simp
  with eq have "take (length g) w = g" by simp
  moreover from len b have "g \<noteq> []" by auto
  ultimately show ?R using len b by auto
next
  assume r: ?R
  then have ne: "g \<noteq> []" and tk: "take (length g) w = g" by simp_all
  from ne have L: "Suc 0 \<le> length g" by (cases g) simp_all
  have "length (take (length g) w) = min (length g) (length w)" by simp
  with tk have "length g = min (length g) (length w)" by simp
  then have le: "length g \<le> length w" by (simp add: min_def split: if_splits)
  from r L le have "classify w pos order = Some (Initial, 0, int (length g))"
    by (auto simp: classify_cases)
  moreover from tk le have "py_slice w 0 (int (length g)) = g"
    by (simp add: py_slice_inside)
  ultimately show ?L using g by (auto simp: hit_iff)
qed

lemma hit_final_only:
  assumes g: "final feats g = Some f"
    and only: "\<And>s. final feats s = Some f \<Longrightarrow> s = g"
    and ni: "f \<notin> ran (initial feats)" and nm: "f \<notin> ran (match feats)"
    and pos: "pos \<le> int (length w)"
  shows "hit feats w f pos order \<longleftrightarrow>
           order = int (length g) + 1 \<and>
           (pos = int (length w) \<and> g \<noteq> [] \<and> length g \<le> length w \<and>
            drop (length w - length g) w = g)"
    (is "?L \<longleftrightarrow> ?R")
proof
  assume ?L
  then obtain t s e where c: "classify w pos order = Some (t, s, e)"
    and l: "ngram_feats feats t (py_slice w s e) = Some f"
    by (auto simp: hit_iff)
  from l ni nm have t: "t = Final" by (cases t) (auto simp: ran_def)
  with c have b: "0 \<le> pos - order + 1" "int (length w) < pos + 1" "s = pos - order + 1"
    "e = int (length w)" "s < e"
    by (auto simp: classify_cases)
  with pos have p: "pos = int (length w)" by simp
  from b have sl: "py_slice w s e = drop (nat s) w"
    by (simp add: py_slice_inside)
  from l t only have "py_slice w s e = g" by simp
  with sl have eq: "drop (nat s) w = g" by simp
  have "length (drop (nat s) w) = length w - nat s" by simp
  with eq have lg: "length g = length w - nat s" by simp
  with b have s: "nat s = length w - length g" and le: "length g \<le> length w" and ne: "g \<noteq> []"
    by auto
  from lg b p have "order = int (length g) + 1" by auto
  with p eq s le ne show ?R by simp
next
  assume r: ?R
  then have ne: "g \<noteq> []" and le: "length g \<le> length w"
    and dr: "drop (length w - length g) w = g" by simp_all
  from ne have L: "Suc 0 \<le> length g" by (cases g) simp_all
  from r L le have "classify w pos order =
      Some (Final, int (length w) - int (length g), int (length w))"
    by (auto simp: classify_cases)
  moreover from dr le have "py_slice w (int (length w) - int (length g)) (int (length w)) = g"
    by (simp add: py_slice_inside nat_diff_distrib)
  ultimately show ?L using g by (auto simp: hit_iff)
qed

lemma filter_single_position:
  assumes "0 \<le> p" and "p \<le> n"
  shows "length (filter (\<lambda>pos. pos = p \<and> C) [0 .. n]) = (if C then 1 else 0)"
  using assms by (cases C) (simp_all add: filter_eq_distinct)


lemma bump_incr: "bump fl (ans f) = incr fl ans f f"
  by (simp add: bump_def incr_same)

lemma scan_initial_entry:
  assumes g: "initial feats g = Some f"
    and only: "\<And>s. initial feats s = Some f \<Longrightarrow> s = g"
    and nf: "f \<notin> ran (final feats)" and nm: "f \<notin> ran (match feats)"
  shows "ngram_scan fl feats w ans f =
           (if g \<noteq> [] \<and> take (length g) w = g \<and>
               min_ngram_order feats \<le> int (length g) + 1 \<and>
               int (length g) + 1 \<le> max_ngram_order feats
            then incr fl ans f f else ans f)"
proof -
  let ?C = "g \<noteq> [] \<and> take (length g) w = g"
  let ?Q = "\<lambda>pos. pos = int (length g) - 1 \<and> ?C"
  have cnt: "scan_count feats w f =
          (if int (length g) + 1 \<in> set [min_ngram_order feats .. max_ngram_order feats]
           then length (filter ?Q [0 .. int (length w)]) else 0)"
    unfolding scan_count_def
    by (rule count_single_order) (simp_all add: hit_initial_only[OF g only nf nm])
  have pos: "length (filter ?Q [0 .. int (length w)]) = (if ?C then 1 else 0)"
  proof (cases ?C)
    case True
    then have ne: "g \<noteq> []" and tk: "take (length g) w = g" by simp_all
    from ne have L: "Suc 0 \<le> length g" by (cases g) simp_all
    have "length (take (length g) w) = min (length g) (length w)" by simp
    with tk have "length g = min (length g) (length w)" by simp
    then have le: "length g \<le> length w" by (simp add: min_def split: if_splits)
    from L le have "0 \<le> int (length g) - 1" "int (length g) - 1 \<le> int (length w)"
      by linarith+
    then show ?thesis by (rule filter_single_position)
  next
    case False
    then show ?thesis by simp
  qed
  show ?thesis
    by (simp only: ngram_scan_count cnt pos) (simp add: bump_incr)
qed

lemma scan_final_entry:
  assumes g: "final feats g = Some f"
    and only: "\<And>s. final feats s = Some f \<Longrightarrow> s = g"
    and ni: "f \<notin> ran (initial feats)" and nm: "f \<notin> ran (match feats)"
  shows "ngram_scan fl feats w ans f =
           (if g \<noteq> [] \<and> length g \<le> length w \<and> drop (length w - length g) w = g \<and>
               min_ngram_order feats \<le> int (length g) + 1 \<and>
               int (length g) + 1 \<le> max_ngram_order feats
            then incr fl ans f f else ans f)"
proof -
  let ?C = "g \<noteq> [] \<and> length g \<le> length w \<and> drop (length w - length g) w = g"
  let ?Q = "\<lambda>pos. pos = int (length w) \<and> ?C"
  have cnt: "scan_count feats w f =
          (if int (length g) + 1 \<in> set [min_ngram_order feats .. max_ngram_order feats]
           then length (filter ?Q [0 .. int (length w)]) else 0)"
    unfolding scan_count_def
    by (rule count_single_order) (simp_all add: hit_final_only[OF g only ni nm])
  have pos: "length (filter ?Q [0 .. int (length w)]) = (if ?C then 1 else 0)"
    by (rule filter_single_position) simp_all
  show ?thesis
    by (simp only: ngram_scan_count cnt pos) (simp add: bump_incr)
qed

lemma initial_span:
  assumes "classify w pos order = Some (Initial, s, e)"
  shows "pos = order - 2 \<and> s = 0 \<and> e = order - 1 \<and> order - 1 \<le> int (length w) \<and>
         py_slice w s e = take (nat (order - 1)) w \<and>
         int (length (py_slice w s e)) = order - 1"
proof -
  from assms have b: "pos - order + 1 = - 1" "pos + 1 \<le> int (length w)" "s = 0" "e = pos + 1" "0 < e"
    by (auto simp: classify_cases)
  then have e: "e = order - 1" and p: "pos = order - 2" by linarith+
  from b e have sl: "py_slice w s e = take (nat (order - 1)) w" by (simp add: py_slice_inside)
  from b e have "nat (order - 1) \<le> length w" by linarith
  then have "length (take (nat (order - 1)) w) = nat (order - 1)" by simp
  moreover from b e have "int (nat (order - 1)) = order - 1" by linarith
  ultimately have "int (length (py_slice w s e)) = order - 1" using sl by simp
  moreover from b e have "order - 1 \<le> int (length w)" by linarith
  ultimately show ?thesis using sl b e p by blast
qed

lemma final_span:
  assumes "classify w pos order = Some (Final, s, e)" and "pos \<le> int (length w)"
  shows "pos = int (length w) \<and> s = int (length w) - (order - 1) \<and> e = int (length w) \<and>
         order - 1 \<le> int (length w) \<and>
         py_slice w s e = drop (length w - nat (order - 1)) w \<and>
         int (length (py_slice w s e)) = order - 1"
proof -
  from assms have b: "0 \<le> pos - order + 1" "int (length w) < pos + 1" "s = pos - order + 1"
    "e = int (length w)" "s < e"
    by (auto simp: classify_cases)
  with assms have p: "pos = int (length w)" by simp
  from b have sl: "py_slice w s e = drop (nat s) w" by (simp add: py_slice_inside)
  from b p have ns: "nat s = length w - nat (order - 1)" by auto
  from b p have "int (length (drop (length w - nat (order - 1)) w)) = order - 1" by auto
  with sl ns have "int (length (py_slice w s e)) = order - 1" by simp
  moreover from sl ns have "py_slice w s e = drop (length w - nat (order - 1)) w" by simp
  moreover from b p have "s = int (length w) - (order - 1)" "order - 1 \<le> int (length w)"
    by linarith+
  ultimately show ?thesis using b p by blast
qed

text \<open>
  C10. For every word and every order, a span the scan classifies as initial comes from
  the one position \<^verbatim>\<open>pos = order - 2\<close> and is the word's prefix of length
  \<^verbatim>\<open>order - 1\<close>, which is at most \<^verbatim>\<open>len(word)\<close>; a span it classifies as final comes
  from \<^verbatim>\<open>pos = len(word)\<close> and is the word's suffix of length \<^verbatim>\<open>order - 1\<close>. So a key
  \<open>g\<close> of the initial (final) dict can only match at the order \<^verbatim>\<open>len(g) + 1\<close>, at one
  position: when \<open>g\<close> alone carries the feature id \<open>f\<close>, the whole scan changes the value
  at \<open>f\<close> by one \<^verbatim>\<open>+= 1\<close> if \<open>g\<close> is a nonempty prefix (suffix) of the word and its order
  is in the range scanned, and not at all otherwise.
\<close>

theorem boundary_ngrams_once:
  "(classify w pos order = Some (Initial, s, e) \<longrightarrow>
      pos = order - 2 \<and> order - 1 \<le> int (length w) \<and>
      py_slice w s e = take (nat (order - 1)) w \<and>
      int (length (py_slice w s e)) = order - 1)
   \<and> (pos \<le> int (length w) \<and> classify w pos order = Some (Final, s, e) \<longrightarrow>
      pos = int (length w) \<and> order - 1 \<le> int (length w) \<and>
      py_slice w s e = drop (length w - nat (order - 1)) w \<and>
      int (length (py_slice w s e)) = order - 1)
   \<and> (initial feats g = Some f \<and> (\<forall>x. initial feats x = Some f \<longrightarrow> x = g) \<and>
      f \<notin> ran (final feats) \<and> f \<notin> ran (match feats) \<longrightarrow>
      ngram_scan fl feats w ans f =
        (if g \<noteq> [] \<and> take (length g) w = g \<and>
            min_ngram_order feats \<le> int (length g) + 1 \<and>
            int (length g) + 1 \<le> max_ngram_order feats
         then incr fl ans f f else ans f))
   \<and> (final feats g = Some f \<and> (\<forall>x. final feats x = Some f \<longrightarrow> x = g) \<and>
      f \<notin> ran (initial feats) \<and> f \<notin> ran (match feats) \<longrightarrow>
      ngram_scan fl feats w ans f =
        (if g \<noteq> [] \<and> length g \<le> length w \<and> drop (length w - length g) w = g \<and>
            min_ngram_order feats \<le> int (length g) + 1 \<and>
            int (length g) + 1 \<le> max_ngram_order feats
         then incr fl ans f f else ans f))"
proof (intro conjI impI)
  assume "classify w pos order = Some (Initial, s, e)"
  from initial_span[OF this]
  show "pos = order - 2" "order - 1 \<le> int (length w)"
    "py_slice w s e = take (nat (order - 1)) w" "int (length (py_slice w s e)) = order - 1"
    by blast+
next
  assume "pos \<le> int (length w) \<and> classify w pos order = Some (Final, s, e)"
  then have "classify w pos order = Some (Final, s, e)" "pos \<le> int (length w)" by simp_all
  from final_span[OF this]
  show "pos = int (length w)" "order - 1 \<le> int (length w)"
    "py_slice w s e = drop (length w - nat (order - 1)) w"
    "int (length (py_slice w s e)) = order - 1"
    by blast+
next
  assume a: "initial feats g = Some f \<and> (\<forall>x. initial feats x = Some f \<longrightarrow> x = g) \<and>
      f \<notin> ran (final feats) \<and> f \<notin> ran (match feats)"
  then have "initial feats g = Some f" "\<And>x. initial feats x = Some f \<Longrightarrow> x = g"
    "f \<notin> ran (final feats)" "f \<notin> ran (match feats)" by blast+
  then show "ngram_scan fl feats w ans f =
        (if g \<noteq> [] \<and> take (length g) w = g \<and>
            min_ngram_order feats \<le> int (length g) + 1 \<and>
            int (length g) + 1 \<le> max_ngram_order feats
         then incr fl ans f f else ans f)"
    by (rule scan_initial_entry)
next
  assume a: "final feats g = Some f \<and> (\<forall>x. final feats x = Some f \<longrightarrow> x = g) \<and>
      f \<notin> ran (initial feats) \<and> f \<notin> ran (match feats)"
  then have "final feats g = Some f" "\<And>x. final feats x = Some f \<Longrightarrow> x = g"
    "f \<notin> ran (initial feats)" "f \<notin> ran (match feats)" by blast+
  then show "ngram_scan fl feats w ans f =
        (if g \<noteq> [] \<and> length g \<le> length w \<and> drop (length w - length g) w = g \<and>
            min_ngram_order feats \<le> int (length g) + 1 \<and>
            int (length g) + 1 \<le> max_ngram_order feats
         then incr fl ans f f else ans f)"
    by (rule scan_final_entry)
qed

theorem boundary_ngrams_once_witness:
  "classify ''cat'' 0 2 = Some (Initial, 0, 1) \<and> py_slice ''cat'' 0 1 = ''c''
   \<and> classify ''cat'' 3 2 = Some (Final, 2, 3) \<and> py_slice ''cat'' 2 3 = ''t''
   \<and> ngram_scan real_ops
        (init_feats\<lparr>match := [''at'' \<mapsto> 9], initial := [''c'' \<mapsto> 7], final := [''t'' \<mapsto> 8],
                     min_ngram_order := 2, max_ngram_order := 2\<rparr>)
        ''cat'' Map.empty 7 = Some (IntV 1)
   \<and> ngram_scan real_ops
        (init_feats\<lparr>match := [''at'' \<mapsto> 9], initial := [''c'' \<mapsto> 7], final := [''t'' \<mapsto> 8],
                     min_ngram_order := 2, max_ngram_order := 2\<rparr>)
        ''cat'' Map.empty 8 = Some (IntV 1)"
proof -
  let ?F = "(init_feats :: real feats)\<lparr>match := [''at'' \<mapsto> 9], initial := [''c'' \<mapsto> 7],
              final := [''t'' \<mapsto> 8], min_ngram_order := 2, max_ngram_order := 2\<rparr>"
  have c1: "classify ''cat'' 0 2 = Some (Initial, 0, 1)"
    and c2: "classify ''cat'' 3 2 = Some (Final, 2, 3)"
    by (simp_all add: classify_def)
  from boundary_ngrams_once[of "''cat''" 0 2 0 1 ?F "''c''" 7 real_ops Map.empty] c1
  have s1: "py_slice ''cat'' 0 1 = ''c''"
    and n1: "ngram_scan real_ops ?F ''cat'' Map.empty 7 = Some (IntV 1)"
    by (simp_all add: init_feats_def incr_def)
  from boundary_ngrams_once[of "''cat''" 3 2 2 3 ?F "''t''" 8 real_ops Map.empty] c2
  have s2: "py_slice ''cat'' 2 3 = ''t''"
    and n2: "ngram_scan real_ops ?F ''cat'' Map.empty 8 = Some (IntV 1)"
    by (simp_all add: init_feats_def incr_def)
  from c1 c2 s1 s2 n1 n2 show ?thesis by simp
qed


section \<open>Properties of the readers\<close>

subsection \<open>The vocabulary\<close>

lemma vocab_loop:
  assumes "\<forall>line \<in> set lines. length (py_split line) = 2 \<and> pint (py_split line ! 1) \<noteq> None"
    and "distinct (map fst vocab)"
  shows "for_lines (vocab_line pint) vocab lines =
           (if distinct (map fst vocab @ vocab_words lines)
            then Inr (vocab @ zip (vocab_words lines) (vocab_ids pint lines))
            else Inl ExitDuplicateWord)"
  using assms
proof (induction lines arbitrary: vocab)
  case Nil
  then show ?case by (simp add: vocab_words_def vocab_ids_def)
next
  case (Cons line rest)
  let ?w = "py_split line ! 0"
  from Cons.prems obtain i where len: "length (py_split line) = 2"
    and i: "pint (py_split line ! 1) = Some i" by auto
  show ?case
  proof (cases "?w \<in> set (map fst vocab)")
    case True
    then show ?thesis using len by (simp add: vocab_line_def vocab_words_def)
  next
    case False
    with Cons.prems have d: "distinct (map fst (vocab @ [(?w, i)]))" by simp
    from Cons.prems have wf: "\<forall>l \<in> set rest. length (py_split l) = 2 \<and> pint (py_split l ! 1) \<noteq> None"
      by simp
    have step: "vocab_line pint vocab (py_split line) = Inr (vocab @ [(?w, i)])"
      using False len i by (simp add: vocab_line_def)
    have "for_lines (vocab_line pint) vocab (line # rest) =
            for_lines (vocab_line pint) (vocab @ [(?w, i)]) rest"
      by (simp add: step)
    also have "\<dots> = (if distinct (map fst (vocab @ [(?w, i)]) @ vocab_words rest)
            then Inr ((vocab @ [(?w, i)]) @ zip (vocab_words rest) (vocab_ids pint rest))
            else Inl ExitDuplicateWord)"
      by (rule Cons.IH[OF wf d])
    finally show ?thesis using i by (simp add: vocab_words_def vocab_ids_def)
  qed
qed

lemma enumerate_ids:
  "list_all (\<lambda>(idx, i). int idx = i) (enumerate n xs) \<longleftrightarrow> xs = map int [n ..< n + length xs]"
proof (induction xs arbitrary: n)
  case Nil
  show ?case by simp
next
  case (Cons x xs)
  have "[n ..< n + length (x # xs)] = n # [Suc n ..< Suc n + length xs]"
    by (simp add: upt_rec)
  with Cons.IH[of "Suc n"] show ?case by auto
qed

text \<open>
  C8. On a vocabulary file whose lines all have two fields, the second an integer,
  \<^verbatim>\<open>read_vocab\<close> exits with the duplicated-word message when a word appears on two
  lines; otherwise, with \<open>N\<close> the number of lines, it fails the assertion \<^verbatim>\<open>idx == id\<close>
  unless the sorted ids are exactly \<open>0, 1, ..., N - 1\<close>; otherwise it returns the
  vocabulary, the words with their ids.
\<close>

theorem read_vocab_contract:
  assumes "\<forall>line \<in> set lines. length (py_split line) = 2 \<and> pint (py_split line ! 1) \<noteq> None"
  shows "read_vocab pint lines =
           (if \<not> distinct (vocab_words lines) then Inl ExitDuplicateWord
            else if sort (vocab_ids pint lines) \<noteq> map int [0 ..< length lines]
            then Inl AssertIdGap
            else Inr (zip (vocab_words lines) (vocab_ids pint lines)))"
proof -
  have loop: "for_lines (vocab_line pint) [] lines =
           (if distinct (vocab_words lines)
            then Inr (zip (vocab_words lines) (vocab_ids pint lines))
            else Inl ExitDuplicateWord)"
    using vocab_loop[OF assms, of "[]"] by simp
  have snd: "map snd (zip (vocab_words lines) (vocab_ids pint lines)) = vocab_ids pint lines"
    by (simp add: vocab_words_def vocab_ids_def)
  have len: "length (sort (vocab_ids pint lines)) = length lines"
    by (simp add: vocab_ids_def)
  have chk: "list_all (\<lambda>(idx, i). int idx = i) (enumerate 0 (sort (vocab_ids pint lines))) \<longleftrightarrow>
               sort (vocab_ids pint lines) = map int [0 ..< length lines]"
    using enumerate_ids[of 0 "sort (vocab_ids pint lines)"] by (simp only: len add_0)
  show ?thesis
    by (simp add: read_vocab_def loop snd chk)
qed

theorem read_vocab_contract_witness:
  "read_vocab dec_int [''a 0'', ''a 1''] = Inl ExitDuplicateWord
   \<and> read_vocab dec_int [''a 0'', ''b 2''] = Inl AssertIdGap
   \<and> read_vocab dec_int [''<eps> 0'', ''cat 1''] = Inr [(''<eps>'', 0), (''cat'', 1)]"
proof -
  have wf1: "\<forall>line \<in> set [''a 0'', ''a 1'']. length (py_split line) = 2 \<and> dec_int (py_split line ! 1) \<noteq> None"
    and wf2: "\<forall>line \<in> set [''a 0'', ''b 2'']. length (py_split line) = 2 \<and> dec_int (py_split line ! 1) \<noteq> None"
    and wf3: "\<forall>line \<in> set [''<eps> 0'', ''cat 1'']. length (py_split line) = 2 \<and> dec_int (py_split line ! 1) \<noteq> None"
    by code_simp+
  have "read_vocab dec_int [''a 0'', ''a 1''] = Inl ExitDuplicateWord"
    unfolding read_vocab_contract[OF wf1] by code_simp
  moreover have "read_vocab dec_int [''a 0'', ''b 2''] = Inl AssertIdGap"
    unfolding read_vocab_contract[OF wf2] by code_simp
  moreover have "read_vocab dec_int [''<eps> 0'', ''cat 1''] = Inr [(''<eps>'', 0), (''cat'', 1)]"
    unfolding read_vocab_contract[OF wf3] by code_simp
  ultimately show ?thesis by blast
qed


subsection \<open>Field counts\<close>

lemma for_lines_append:
  "for_lines body s (xs @ ys) =
     (case for_lines body s xs of Inl e \<Rightarrow> Inl e | Inr s' \<Rightarrow> for_lines body s' ys)"
  by (induction xs arbitrary: s) (simp_all split: sum.split)

lemma for_lines_fails:
  assumes "line \<in> set lines" and "\<And>s. isl (body s (py_split line))"
  shows "isl (for_lines body s lines)"
  using assms(1)
proof (induction lines arbitrary: s)
  case Nil
  then show ?case by simp
next
  case (Cons l ls)
  show ?case
  proof (cases "body s (py_split l)")
    case (Inl e)
    then show ?thesis by simp
  next
    case (Inr s')
    with assms(2)[of s] have "l \<noteq> line" by auto
    with Cons.prems have "line \<in> set ls" by simp
    from Cons.IH[OF this] Inr show ?thesis by simp
  qed
qed

lemma for_lines_first_error:
  assumes "for_lines body s pre = Inr s'" and "body s' (py_split bad) = Inl e"
  shows "for_lines body s (pre @ bad # post) = Inl e"
  using assms by (simp add: for_lines_append)

lemma vocab_line_count: "length flds \<noteq> 2 \<Longrightarrow> vocab_line pint v flds = Inl AssertFieldCount"
  by (simp add: vocab_line_def)

lemma probs_line_count:
  "length flds \<noteq> 2 \<Longrightarrow> probs_line pint pfloat t flds = Inl AssertFieldCount"
  by (simp add: probs_line_def)

lemma features_line_count:
  "length flds \<notin> {2, 3, 4} \<Longrightarrow> features_line pint pfloat feats flds = Inl AssertFieldCount"
  by (simp add: features_line_def)

lemma py_index_beyond: "int (length xs) \<le> i \<Longrightarrow> py_index xs i = Inl IndexError"
  by (simp add: py_index_def)

lemma float_field_beyond: "int (length xs) \<le> i \<Longrightarrow> float_field pfloat xs i = Inl IndexError"
  by (simp add: float_field_def py_index_beyond)

lemma features_line_too_few:
  assumes "length flds < min_fields (flds ! 1)"
  shows "isl (features_line pint pfloat feats flds)"
proof (cases "length flds \<in> {2, 3, 4}")
  case False
  then show ?thesis by (simp add: features_line_count)
next
  case len: True
  show ?thesis
  proof (cases "pint (flds ! 0)")
    case None
    with len show ?thesis by (simp add: features_line_def)
  next
    case (Some feat_id)
    consider (u) "flds ! 1 = ''unigram''"
      | (p) "flds ! 1 \<in> {''constant'', ''special'', ''word'', ''match'', ''initial'', ''final''}"
      | (o) "flds ! 1 \<noteq> ''unigram''"
            "flds ! 1 \<notin> {''constant'', ''special'', ''word'', ''match'', ''initial'', ''final''}"
      by blast
    then show ?thesis
    proof cases
      case u
      with assms len have "length flds = 2 \<or> length flds = 3" by (auto simp: min_fields_def)
      then show ?thesis
      proof
        assume "length flds = 2"
        then have "float_field pfloat flds 2 = Inl IndexError" by (simp add: float_field_beyond)
        with u len Some show ?thesis by (simp add: features_line_def)
      next
        assume "length flds = 3"
        then have "float_field pfloat flds 3 = Inl IndexError" by (simp add: float_field_beyond)
        with u len Some show ?thesis by (simp add: features_line_def split: sum.split)
      qed
    next
      case p
      with assms len have l2: "length flds = 2" by (auto simp: min_fields_def)
      then have "float_field pfloat flds 2 = Inl IndexError" "py_index flds 2 = Inl IndexError"
        by (simp_all add: float_field_beyond py_index_beyond)
      with p len Some show ?thesis by (auto simp: features_line_def)
    next
      case o
      with assms len show ?thesis by (auto simp: min_fields_def)
    qed
  qed
qed


lemma py_index_in: "i < length xs \<Longrightarrow> py_index xs (int i) = Inr (xs ! i)"
  by (simp add: py_index_def)

lemma py_index_2: "3 \<le> length xs \<Longrightarrow> py_index xs 2 = Inr (xs ! 2)"
  using py_index_in[of 2 xs] by simp

lemma float_field_2:
  "3 \<le> length xs \<Longrightarrow>
     float_field pfloat xs 2 = (case pfloat (xs ! 2) of None \<Rightarrow> Inl ValueError | Some x \<Rightarrow> Inr x)"
  by (simp add: float_field_def py_index_2)

lemma features_line_surplus:
  assumes len: "length flds \<in> {2, 3, 4}" and enough: "min_fields (flds ! 1) \<le> length flds"
  shows "features_line pint pfloat feats flds =
           features_line pint pfloat feats (take (min_fields (flds ! 1)) flds)"
proof -
  let ?k = "min_fields (flds ! 1)"
  let ?cut = "take ?k flds"
  have k: "?k \<in> {2, 3, 4}" by (simp add: min_fields_def)
  with enough have lc: "length ?cut = ?k" by simp
  from k have h: "?cut ! 0 = flds ! 0" "?cut ! 1 = flds ! 1" by auto
  consider (u) "flds ! 1 = ''unigram''"
    | (p) "flds ! 1 \<in> {''constant'', ''special'', ''word'', ''match'', ''initial'', ''final''}"
    | (o) "flds ! 1 \<noteq> ''unigram''"
          "flds ! 1 \<notin> {''constant'', ''special'', ''word'', ''match'', ''initial'', ''final''}"
    by blast
  then show ?thesis
  proof cases
    case u
    then have "?k = 4" by (simp add: min_fields_def)
    with enough len have "?cut = flds" by auto
    then show ?thesis by simp
  next
    case p
    then have k3: "?k = 3" by (auto simp: min_fields_def)
    with enough have l3: "3 \<le> length flds" by simp
    from k3 have cut: "?cut = take 3 flds" by simp
    from l3 have lc3: "length (take 3 flds) = 3" by simp
    have c2: "take 3 flds ! 2 = flds ! 2" by simp
    have "py_index (take 3 flds) 2 = Inr (take 3 flds ! 2)"
      by (rule py_index_2) (use l3 in simp)
    with c2 py_index_2[OF l3] have i: "py_index (take 3 flds) 2 = py_index flds 2" by simp
    have "float_field pfloat (take 3 flds) 2 =
            (case pfloat (take 3 flds ! 2) of None \<Rightarrow> Inl ValueError | Some x \<Rightarrow> Inr x)"
      by (rule float_field_2) (use l3 in simp)
    with c2 float_field_2[OF l3, of pfloat]
    have f: "float_field pfloat (take 3 flds) 2 = float_field pfloat flds 2" by simp
    from h cut have h3: "take 3 flds ! 0 = flds ! 0" "take 3 flds ! 1 = flds ! 1" by simp_all
    show ?thesis
      unfolding cut features_line_def h3 i f lc3 using len p
      by (auto simp: Let_def split: option.split)
  next
    case o
    then have k2: "?k = 2" by (auto simp: min_fields_def)
    with lc have lc2: "length ?cut = 2" by simp
    show ?thesis
      unfolding features_line_def h using len lc2 o
      by (auto simp: Let_def split: option.split)
  qed
qed

lemma features_line_special:
  assumes "length flds \<in> {3, 4}" and "pint (flds ! 0) = Some i" and "flds ! 1 = ''special''"
  shows "features_line pint pfloat feats flds =
           Inr (feats\<lparr>special := (special feats)(flds ! 2 \<mapsto> i)\<rparr>)"
proof -
  from assms(1) have "py_index flds 2 = Inr (flds ! 2)" by (intro py_index_2) auto
  with assms show ?thesis by (auto simp: features_line_def)
qed

lemma features_line_constant:
  assumes "length flds \<in> {3, 4}" and "pint (flds ! 0) = Some i" and "flds ! 1 = ''constant''"
    and "pfloat (flds ! 2) = Some x"
  shows "features_line pint pfloat feats flds = Inr (feats\<lparr>constant_feat := Some (i, x)\<rparr>)"
proof -
  from assms(1) have "3 \<le> length flds" by auto
  from float_field_2[OF this, of pfloat] assms(4) have "float_field pfloat flds 2 = Inr x" by simp
  with assms show ?thesis by (auto simp: features_line_def)
qed

lemma features_line_ngram:
  assumes "length flds \<in> {3, 4}" and "pint (flds ! 0) = Some i"
    and "flds ! 1 \<in> {''word'', ''match'', ''initial'', ''final''}"
  shows "features_line pint pfloat feats flds =
           Inr (if flds ! 1 = ''word'' then set_ngram ''word'' (flds ! 2) i feats
                else if flds ! 1 = ''match''
                then update_order (int (length (flds ! 2)))
                       (set_ngram ''match'' (flds ! 2) i feats)
                else update_order (int (length (flds ! 2)) + 1)
                       (set_ngram (flds ! 1) (flds ! 2) i feats))"
proof -
  from assms(1) have "py_index flds 2 = Inr (flds ! 2)" by (intro py_index_2) auto
  with assms show ?thesis by (auto simp: features_line_def Let_def)
qed

text \<open>
  C4, as the source has it. The reader of the feature dictionary asserts only that a
  line has 2, 3 or 4 fields (line 97), and reads the payload by index. A \<^verbatim>\<open>length\<close>
  line, which takes no payload, with a third field is accepted, the field ignored.
\<close>

theorem surplus_field_accepted:
  "length (py_split ''5 length extra'') = 3
   \<and> read_features dec_int dec_float [''5 length extra'']
       = Inr ((init_feats :: real feats)\<lparr>length_feat := Some 5\<rparr>)"
  by (simp add: read_features_def features_line_def py_split_def is_space_def
        dec_int_def dec_nat_def digit_of_def)

text \<open>
  C4, amended. A vocabulary or probability line whose field count is not 2 ends the
  load with an error, and so does a line of the feature dictionary whose field count is
  not 2, 3 or 4 or is less than its type needs. When the lines before it were read without
  error, a line failing the field-count assertion gives that assertion's error. A line of
  the feature dictionary with more fields than its type needs, and at most 4, is not
  rejected for its field count: the reader treats it exactly as the line cut to the
  fields its type needs. So a \<^verbatim>\<open>length\<close> line with 2, 3 or 4 fields, a \<^verbatim>\<open>special\<close>,
  \<^verbatim>\<open>word\<close>, \<^verbatim>\<open>match\<close>, \<^verbatim>\<open>initial\<close> or \<^verbatim>\<open>final\<close> line with 3 or 4 fields, and a
  \<^verbatim>\<open>constant\<close> line with 3 or 4 fields whose third field is a float, each with an
  integer feature id, are read, the fields past the payload ignored.
\<close>

theorem malformed_lines_fatal:
  "((\<exists>line \<in> set lines. length (py_split line) \<noteq> 2) \<longrightarrow>
      isl (read_vocab pint lines) \<and> isl (read_unigram_probs pint pfloat lines))
   \<and> ((\<exists>line \<in> set lines. length (py_split line) \<notin> {2, 3, 4} \<or>
                            length (py_split line) < min_fields (py_split line ! 1)) \<longrightarrow>
      isl (read_features pint pfloat lines))
   \<and> (for_lines (vocab_line pint) [] pre = Inr v \<and> length (py_split bad) \<noteq> 2 \<longrightarrow>
      read_vocab pint (pre @ bad # post) = Inl AssertFieldCount)
   \<and> (for_lines (probs_line pint pfloat) [] pre = Inr t \<and> length (py_split bad) \<noteq> 2 \<longrightarrow>
      read_unigram_probs pint pfloat (pre @ bad # post) = Inl AssertFieldCount)
   \<and> (for_lines (features_line pint pfloat) init_feats pre = Inr fs \<and>
      length (py_split bad) \<notin> {2, 3, 4} \<longrightarrow>
      read_features pint pfloat (pre @ bad # post) = Inl AssertFieldCount)
   \<and> (length flds \<in> {2, 3, 4} \<and> pint (flds ! 0) = Some i \<and> flds ! 1 = ''length'' \<longrightarrow>
      features_line pint pfloat feats flds = Inr (feats\<lparr>length_feat := Some i\<rparr>))
   \<and> (length flds \<in> {2, 3, 4} \<and> min_fields (flds ! 1) \<le> length flds \<longrightarrow>
      features_line pint pfloat feats flds =
        features_line pint pfloat feats (take (min_fields (flds ! 1)) flds))
   \<and> (length flds \<in> {3, 4} \<and> pint (flds ! 0) = Some i \<and> flds ! 1 = ''special'' \<longrightarrow>
      features_line pint pfloat feats flds =
        Inr (feats\<lparr>special := (special feats)(flds ! 2 \<mapsto> i)\<rparr>))
   \<and> (length flds \<in> {3, 4} \<and> pint (flds ! 0) = Some i \<and> flds ! 1 = ''constant'' \<and>
      pfloat (flds ! 2) = Some x \<longrightarrow>
      features_line pint pfloat feats flds = Inr (feats\<lparr>constant_feat := Some (i, x)\<rparr>))
   \<and> (length flds \<in> {3, 4} \<and> pint (flds ! 0) = Some i \<and>
      flds ! 1 \<in> {''word'', ''match'', ''initial'', ''final''} \<longrightarrow>
      features_line pint pfloat feats flds =
        Inr (if flds ! 1 = ''word'' then set_ngram ''word'' (flds ! 2) i feats
             else if flds ! 1 = ''match''
             then update_order (int (length (flds ! 2)))
                    (set_ngram ''match'' (flds ! 2) i feats)
             else update_order (int (length (flds ! 2)) + 1)
                    (set_ngram (flds ! 1) (flds ! 2) i feats)))"
proof (intro conjI impI)
  assume "\<exists>line \<in> set lines. length (py_split line) \<noteq> 2"
  then obtain line where l: "line \<in> set lines" "length (py_split line) \<noteq> 2" by blast
  have "isl (for_lines (vocab_line pint) [] lines)"
    by (rule for_lines_fails[OF l(1)]) (simp add: vocab_line_count[OF l(2)])
  then show "isl (read_vocab pint lines)"
    by (cases "for_lines (vocab_line pint) [] lines") (simp_all add: read_vocab_def)
  have "isl (for_lines (probs_line pint pfloat) [] lines)"
    by (rule for_lines_fails[OF l(1)]) (simp add: probs_line_count[OF l(2)])
  then show "isl (read_unigram_probs pint pfloat lines)"
    by (cases "for_lines (probs_line pint pfloat) [] lines") (simp_all add: read_unigram_probs_def)
next
  assume "\<exists>line \<in> set lines. length (py_split line) \<notin> {2, 3, 4} \<or>
                            length (py_split line) < min_fields (py_split line ! 1)"
  then obtain line where l: "line \<in> set lines"
    and b: "length (py_split line) \<notin> {2, 3, 4} \<or>
            length (py_split line) < min_fields (py_split line ! 1)" by blast
  have "isl (features_line pint pfloat s (py_split line))" for s
    using b features_line_count[of "py_split line" pint pfloat s]
      features_line_too_few[of "py_split line" pint pfloat s] by auto
  then show "isl (read_features pint pfloat lines)"
    unfolding read_features_def by (rule for_lines_fails[OF l])
next
  assume "for_lines (vocab_line pint) [] pre = Inr v \<and> length (py_split bad) \<noteq> 2"
  then have "for_lines (vocab_line pint) [] (pre @ bad # post) = Inl AssertFieldCount"
    by (intro for_lines_first_error[where s' = v]) (simp_all add: vocab_line_count)
  then show "read_vocab pint (pre @ bad # post) = Inl AssertFieldCount"
    by (simp add: read_vocab_def)
next
  assume "for_lines (probs_line pint pfloat) [] pre = Inr t \<and> length (py_split bad) \<noteq> 2"
  then have "for_lines (probs_line pint pfloat) [] (pre @ bad # post) = Inl AssertFieldCount"
    by (intro for_lines_first_error[where s' = t]) (simp_all add: probs_line_count)
  then show "read_unigram_probs pint pfloat (pre @ bad # post) = Inl AssertFieldCount"
    by (simp add: read_unigram_probs_def)
next
  assume "for_lines (features_line pint pfloat) init_feats pre = Inr fs \<and>
      length (py_split bad) \<notin> {2, 3, 4}"
  then show "read_features pint pfloat (pre @ bad # post) = Inl AssertFieldCount"
    unfolding read_features_def
    by (intro for_lines_first_error[where s' = fs]) (simp_all add: features_line_count)
next
  assume "length flds \<in> {2, 3, 4} \<and> pint (flds ! 0) = Some i \<and> flds ! 1 = ''length''"
  then show "features_line pint pfloat feats flds = Inr (feats\<lparr>length_feat := Some i\<rparr>)"
    by (simp add: features_line_def)
next
  assume "length flds \<in> {2, 3, 4} \<and> min_fields (flds ! 1) \<le> length flds"
  then have "length flds \<in> {2, 3, 4}" "min_fields (flds ! 1) \<le> length flds" by blast+
  then show "features_line pint pfloat feats flds =
        features_line pint pfloat feats (take (min_fields (flds ! 1)) flds)"
    by (rule features_line_surplus)
next
  assume "length flds \<in> {3, 4} \<and> pint (flds ! 0) = Some i \<and> flds ! 1 = ''special''"
  then have "length flds \<in> {3, 4}" "pint (flds ! 0) = Some i" "flds ! 1 = ''special''"
    by blast+
  then show "features_line pint pfloat feats flds =
        Inr (feats\<lparr>special := (special feats)(flds ! 2 \<mapsto> i)\<rparr>)"
    by (rule features_line_special)
next
  assume "length flds \<in> {3, 4} \<and> pint (flds ! 0) = Some i \<and> flds ! 1 = ''constant'' \<and>
      pfloat (flds ! 2) = Some x"
  then have "length flds \<in> {3, 4}" "pint (flds ! 0) = Some i" "flds ! 1 = ''constant''"
    "pfloat (flds ! 2) = Some x" by blast+
  then show "features_line pint pfloat feats flds = Inr (feats\<lparr>constant_feat := Some (i, x)\<rparr>)"
    by (rule features_line_constant)
next
  assume "length flds \<in> {3, 4} \<and> pint (flds ! 0) = Some i \<and>
      flds ! 1 \<in> {''word'', ''match'', ''initial'', ''final''}"
  then have "length flds \<in> {3, 4}" "pint (flds ! 0) = Some i"
    "flds ! 1 \<in> {''word'', ''match'', ''initial'', ''final''}" by blast+
  then show "features_line pint pfloat feats flds =
        Inr (if flds ! 1 = ''word'' then set_ngram ''word'' (flds ! 2) i feats
             else if flds ! 1 = ''match''
             then update_order (int (length (flds ! 2)))
                    (set_ngram ''match'' (flds ! 2) i feats)
             else update_order (int (length (flds ! 2)) + 1)
                    (set_ngram (flds ! 1) (flds ! 2) i feats))"
    by (rule features_line_ngram)
qed

theorem malformed_lines_fatal_witness:
  "read_vocab dec_int [''a 0'', ''b''] = Inl AssertFieldCount
   \<and> read_unigram_probs dec_int dec_float [''0 0.5'', ''1 0.25 x''] = Inl AssertFieldCount
   \<and> read_features dec_int dec_float [''5 length'', ''1 2 3 4 5''] = Inl AssertFieldCount
   \<and> isl (read_vocab dec_int [''a 0'', ''b'', ''c 1''])
   \<and> isl (read_features dec_int dec_float [''5 length'', ''7 unigram 2.0''])
   \<and> features_line dec_int dec_float (init_feats :: real feats) [''5'', ''length'', ''extra'']
       = Inr (init_feats\<lparr>length_feat := Some 5\<rparr>)
   \<and> features_line dec_int dec_float (init_feats :: real feats)
         [''2'', ''special'', ''</s>'', ''extra'']
       = features_line dec_int dec_float init_feats [''2'', ''special'', ''</s>'']
   \<and> features_line dec_int dec_float (init_feats :: real feats)
         [''2'', ''special'', ''</s>'', ''extra'']
       = Inr (init_feats\<lparr>special := [''</s>'' \<mapsto> 2]\<rparr>)
   \<and> features_line dec_int dec_float (init_feats :: real feats)
         [''1'', ''constant'', ''1.0'', ''extra'']
       = Inr (init_feats\<lparr>constant_feat := Some (1, 1)\<rparr>)
   \<and> features_line dec_int dec_float (init_feats :: real feats)
         [''9'', ''match'', ''at'', ''extra'']
       = Inr (update_order 2 (set_ngram ''match'' ''at'' 9 init_feats))"
proof -
  note defs = py_split_def is_space_def dec_int_def dec_nat_def digit_of_def dec_float_def
  have p1: "for_lines (vocab_line dec_int) [] [''a 0''] = Inr [(''a'', 0)]"
    by (simp add: vocab_line_def defs)
  have p2: "for_lines (probs_line dec_int dec_float) [] [''0 0.5''] = Inr [Some (1 / 2)]"
    by (simp add: probs_line_def py_set_item_def defs)
  have p3: "for_lines (features_line dec_int dec_float) init_feats [''5 length'']
              = Inr ((init_feats :: real feats)\<lparr>length_feat := Some 5\<rparr>)"
    by (simp add: features_line_def defs)
  have b1: "length (py_split ''b'') \<noteq> 2" and b2: "length (py_split ''1 0.25 x'') \<noteq> 2"
    and b3: "length (py_split ''1 2 3 4 5'') \<notin> {2, 3, 4}"
    and b4: "length (py_split ''7 unigram 2.0'') < min_fields (py_split ''7 unigram 2.0'' ! 1)"
    by (simp_all add: defs min_fields_def)
  have d: "dec_int ''2'' = Some 2" "dec_int ''1'' = Some 1" "dec_int ''9'' = Some 9"
    "dec_int ''5'' = Some 5" "dec_float ''1.0'' = Some 1"
    by (simp_all add: defs)
  note m = malformed_lines_fatal
  from m[of _ dec_int dec_float "[''a 0'']" "[(''a'', 0)]" "''b''" "[]"] p1 b1
  have "read_vocab dec_int [''a 0'', ''b''] = Inl AssertFieldCount" by simp
  moreover
  from m[of _ dec_int dec_float "[''0 0.5'']" _ "''1 0.25 x''" "[]" "[Some (1 / 2)]"] p2 b2
  have "read_unigram_probs dec_int dec_float [''0 0.5'', ''1 0.25 x''] = Inl AssertFieldCount"
    by simp
  moreover
  from m[of _ dec_int dec_float "[''5 length'']" _ "''1 2 3 4 5''" "[]" _
           "(init_feats :: real feats)\<lparr>length_feat := Some 5\<rparr>"] p3 b3
  have "read_features dec_int dec_float [''5 length'', ''1 2 3 4 5''] = Inl AssertFieldCount"
    by simp
  moreover
  from m[of "[''a 0'', ''b'', ''c 1'']" dec_int dec_float] b1
  have "isl (read_vocab dec_int [''a 0'', ''b'', ''c 1''])" by simp
  moreover
  from m[of "[''5 length'', ''7 unigram 2.0'']" dec_int dec_float] b4
  have "isl (read_features dec_int dec_float [''5 length'', ''7 unigram 2.0''])" by simp
  moreover
  note c2 = conjunct2
  note rest = malformed_lines_fatal
    [where pint = dec_int and pfloat = dec_float and feats = "init_feats :: real feats",
     THEN c2, THEN c2, THEN c2, THEN c2, THEN c2]
  note len_line = rest[THEN conjunct1, THEN mp]
    and cut_line = rest[THEN c2, THEN conjunct1, THEN mp]
    and special_line = rest[THEN c2, THEN c2, THEN conjunct1, THEN mp]
    and constant_line = rest[THEN c2, THEN c2, THEN c2, THEN conjunct1, THEN mp]
    and ngram_line = rest[THEN c2, THEN c2, THEN c2, THEN c2, THEN mp]
  have "features_line dec_int dec_float (init_feats :: real feats) [''5'', ''length'', ''extra'']
       = Inr (init_feats\<lparr>length_feat := Some 5\<rparr>)"
    using len_line[of "[''5'', ''length'', ''extra'']" 5] d by simp
  moreover
  have "features_line dec_int dec_float (init_feats :: real feats)
         [''2'', ''special'', ''</s>'', ''extra'']
       = features_line dec_int dec_float init_feats [''2'', ''special'', ''</s>'']"
    using cut_line[of "[''2'', ''special'', ''</s>'', ''extra'']"]
    by (simp add: min_fields_def)
  moreover
  have "features_line dec_int dec_float (init_feats :: real feats)
         [''2'', ''special'', ''</s>'', ''extra'']
       = Inr (init_feats\<lparr>special := [''</s>'' \<mapsto> 2]\<rparr>)"
    using special_line[of "[''2'', ''special'', ''</s>'', ''extra'']" 2] d
    by (simp add: init_feats_def)
  moreover
  have "features_line dec_int dec_float (init_feats :: real feats)
         [''1'', ''constant'', ''1.0'', ''extra'']
       = Inr (init_feats\<lparr>constant_feat := Some (1, 1)\<rparr>)"
    using constant_line[of "[''1'', ''constant'', ''1.0'', ''extra'']" 1 1] d by simp
  moreover
  have "features_line dec_int dec_float (init_feats :: real feats)
         [''9'', ''match'', ''at'', ''extra'']
       = Inr (update_order 2 (set_ngram ''match'' ''at'' 9 init_feats))"
    using ngram_line[of "[''9'', ''match'', ''at'', ''extra'']" 9] d by simp
  ultimately show ?thesis by blast
qed

subsection \<open>The range of n-gram orders\<close>

lemma update_order_min: "min_ngram_order (update_order k fs) = min k (min_ngram_order fs)"
  by (simp add: update_order_def Let_def min_def)

lemma update_order_max: "max_ngram_order (update_order k fs) = max k (max_ngram_order fs)"
  by (simp add: update_order_def Let_def max_def)

lemma set_ngram_orders:
  "min_ngram_order (set_ngram t g i fs) = min_ngram_order fs"
  "max_ngram_order (set_ngram t g i fs) = max_ngram_order fs"
  by (simp_all add: set_ngram_def)

lemma py_index_Inr: "py_index xs 2 = Inr x \<Longrightarrow> x = xs ! 2"
  by (auto simp: py_index_def split: if_splits)

lemma features_line_orders:
  assumes "features_line pint pfloat fs flds = Inr fs'"
  shows "min_ngram_order fs' = fold min (line_orders flds) (min_ngram_order fs)
       \<and> max_ngram_order fs' = fold max (line_orders flds) (max_ngram_order fs)"
proof -
  from assms obtain feat_id where len: "length flds \<in> {2, 3, 4}"
    and fid: "pint (flds ! 0) = Some feat_id"
    by (auto simp: features_line_def split: if_splits option.splits)
  consider (c) "flds ! 1 = ''constant''" | (s) "flds ! 1 = ''special''"
    | (u) "flds ! 1 = ''unigram''" | (l) "flds ! 1 = ''length''" | (w) "flds ! 1 = ''word''"
    | (m) "flds ! 1 = ''match''" | (i) "flds ! 1 = ''initial''" | (f) "flds ! 1 = ''final''"
    | (o) "flds ! 1 \<notin> {''constant'', ''special'', ''unigram'', ''length'', ''word'', ''match'',
                         ''initial'', ''final''}"
    by blast
  then show ?thesis
  proof cases
    case c
    with assms len fid show ?thesis
      by (auto simp: features_line_def line_orders_def split: sum.splits)
  next
    case s
    with assms len fid show ?thesis
      by (auto simp: features_line_def line_orders_def split: sum.splits)
  next
    case u
    with assms len fid show ?thesis
      by (auto simp: features_line_def line_orders_def split: sum.splits)
  next
    case l
    with assms len fid show ?thesis
      by (auto simp: features_line_def line_orders_def split: sum.splits)
  next
    case w
    with assms len fid show ?thesis
      by (auto simp: features_line_def line_orders_def set_ngram_orders Let_def split: sum.splits)
  next
    case m
    with assms len fid obtain g where "py_index flds 2 = Inr g"
      and "fs' = update_order (int (length g)) (set_ngram ''match'' g feat_id fs)"
      by (auto simp: features_line_def Let_def split: sum.splits)
    with m py_index_Inr[of flds g] show ?thesis
      by (simp add: line_orders_def update_order_min update_order_max set_ngram_orders)
  next
    case i
    with assms len fid obtain g where "py_index flds 2 = Inr g"
      and "fs' = update_order (int (length g) + 1) (set_ngram ''initial'' g feat_id fs)"
      by (auto simp: features_line_def Let_def split: sum.splits)
    with i py_index_Inr[of flds g] show ?thesis
      by (simp add: line_orders_def update_order_min update_order_max set_ngram_orders)
  next
    case f
    with assms len fid obtain g where "py_index flds 2 = Inr g"
      and "fs' = update_order (int (length g) + 1) (set_ngram ''final'' g feat_id fs)"
      by (auto simp: features_line_def Let_def split: sum.splits)
    with f py_index_Inr[of flds g] show ?thesis
      by (simp add: line_orders_def update_order_min update_order_max set_ngram_orders)
  next
    case o
    with assms len fid show ?thesis
      by (auto simp: features_line_def line_orders_def)
  qed
qed

lemma features_loop_orders:
  assumes "for_lines (features_line pint pfloat) fs lines = Inr fs'"
  shows "min_ngram_order fs' = fold min (ngram_orders lines) (min_ngram_order fs)
       \<and> max_ngram_order fs' = fold max (ngram_orders lines) (max_ngram_order fs)"
  using assms
proof (induction lines arbitrary: fs)
  case Nil
  then show ?case by (simp add: ngram_orders_def)
next
  case (Cons line rest)
  from Cons.prems obtain fs1 where
    one: "features_line pint pfloat fs (py_split line) = Inr fs1"
    and more: "for_lines (features_line pint pfloat) fs1 rest = Inr fs'"
    by (auto split: sum.splits)
  from features_line_orders[OF one] Cons.IH[OF more]
  show ?case by (simp add: ngram_orders_def)
qed


lemma ngram_orders_nonneg: "k \<in> set (ngram_orders lines) \<Longrightarrow> 0 \<le> k"
  by (auto simp: ngram_orders_def line_orders_def split: if_splits)

lemma split_from_no_space:
  "\<forall>c \<in> set xs. \<not> is_space c \<Longrightarrow>
     split_from cur xs = (if cur @ xs = [] then [] else [cur @ xs])"
  by (induction xs arbitrary: cur) simp_all

lemma length_long_ngram: "length long_ngram = 10001"
  by (simp add: long_ngram_def)

lemma split_long_ngram: "split_from [] long_ngram = [long_ngram]"
proof -
  have "\<forall>c \<in> set long_ngram. \<not> is_space c"
    by (simp add: long_ngram_def is_space_def)
  moreover from length_long_ngram have "long_ngram \<noteq> []" by auto
  ultimately show ?thesis by (simp add: split_from_no_space)
qed

text \<open>
  C7, as the source has it. The minimum starts at 10000 and the maximum at -1 (lines 91
  and 92) and each is only ever replaced by a smaller, respectively larger, order. A
  dictionary whose only n-gram has 10001 characters leaves the minimum at 10000, which is
  the order of no entry.
\<close>

theorem long_ngram_min_order:
  "ngram_orders [''1 match '' @ long_ngram] = [10001]
   \<and> map_sum id (\<lambda>feats :: real feats. (min_ngram_order feats, max_ngram_order feats))
        (read_features dec_int dec_float [''1 match '' @ long_ngram]) = Inr (10000, 10001)"
proof -
  have "py_split (''1 match '' @ long_ngram) = [''1'', ''match'', long_ngram]"
    by (simp add: py_split_def is_space_def split_long_ngram)
  note sp = this[simplified]
  have "ngram_orders [''1 match '' @ long_ngram] = [10001]"
    by (simp add: ngram_orders_def line_orders_def sp length_long_ngram)
  moreover have "read_features dec_int dec_float [''1 match '' @ long_ngram] =
      Inr ((init_feats :: real feats)\<lparr>match := [long_ngram \<mapsto> 1], max_ngram_order := 10001\<rparr>)"
    by (simp add: read_features_def features_line_def sp py_index_def set_ngram_def
          update_order_def init_feats_def dec_int_def dec_nat_def digit_of_def length_long_ngram)
  ultimately show ?thesis by (simp add: init_feats_def)
qed

text \<open>
  C7, amended. After a feature dictionary is loaded, \<^verbatim>\<open>min_ngram_order\<close> is the minimum
  of 10000 and the orders of its \<^verbatim>\<open>match\<close>, \<^verbatim>\<open>initial\<close> and \<^verbatim>\<open>final\<close> lines, and
  \<^verbatim>\<open>max_ngram_order\<close> the maximum of -1 and these orders; when there is such a line and no
  order exceeds 10000, they are the minimum and the maximum of the orders. Lines of type
  \<^verbatim>\<open>word\<close> have no order and change neither bound.
\<close>

theorem ngram_order_bounds:
  assumes "read_features pint pfloat lines = Inr feats"
  shows "min_ngram_order feats = Min (set (10000 # ngram_orders lines))
       \<and> max_ngram_order feats = Max (set (- 1 # ngram_orders lines))
       \<and> (ngram_orders lines \<noteq> [] \<and> (\<forall>k \<in> set (ngram_orders lines). k \<le> 10000) \<longrightarrow>
            min_ngram_order feats = Min (set (ngram_orders lines)) \<and>
            max_ngram_order feats = Max (set (ngram_orders lines)))"
proof -
  from assms have loop: "for_lines (features_line pint pfloat) init_feats lines = Inr feats"
    by (simp add: read_features_def)
  from features_loop_orders[OF loop]
  have mn: "min_ngram_order feats = Min (set (10000 # ngram_orders lines))"
    and mx: "max_ngram_order feats = Max (set (- 1 # ngram_orders lines))"
    by (simp_all only: Min.set_eq_fold Max.set_eq_fold) (simp_all add: init_feats_def)
  have "min_ngram_order feats = Min (set (ngram_orders lines)) \<and>
        max_ngram_order feats = Max (set (ngram_orders lines))"
    if ne: "ngram_orders lines \<noteq> []" and le: "\<forall>k \<in> set (ngram_orders lines). k \<le> 10000"
  proof -
    let ?S = "set (ngram_orders lines)"
    from ne have fin: "finite ?S" "?S \<noteq> {}" by simp_all
    then have "Min ?S \<in> ?S" "Max ?S \<in> ?S" by (rule Min_in, rule Max_in)
    with le ngram_orders_nonneg have b: "Min ?S \<le> 10000" "0 \<le> Max ?S" by blast+
    have "Min (insert 10000 ?S) = min 10000 (Min ?S)" by (rule Min_insert[OF fin])
    with b have "Min (insert 10000 ?S) = Min ?S" by simp
    moreover have "Max (insert (- 1) ?S) = max (- 1) (Max ?S)" by (rule Max_insert[OF fin])
    with b have "Max (insert (- 1) ?S) = Max ?S" by simp
    moreover have "set (10000 # ngram_orders lines) = insert 10000 ?S"
      "set (- 1 # ngram_orders lines) = insert (- 1) ?S" by simp_all
    ultimately show ?thesis using mn mx by (simp only:)
  qed
  with mn mx show ?thesis by blast
qed

theorem ngram_order_bounds_witness:
  "ngram_orders [''9 match at'', ''7 initial ca'', ''3 word cat'', ''5 length''] = [2, 3]
   \<and> map_sum id (\<lambda>feats :: real feats. (min_ngram_order feats, max_ngram_order feats))
        (read_features dec_int dec_float
           [''9 match at'', ''7 initial ca'', ''3 word cat'', ''5 length'']) = Inr (2, 3)"
proof -
  let ?lines = "[''9 match at'', ''7 initial ca'', ''3 word cat'', ''5 length'']"
  note defs = py_split_def is_space_def dec_int_def dec_nat_def digit_of_def
  have os: "ngram_orders ?lines = [2, 3]"
    by (simp add: ngram_orders_def line_orders_def defs)
  have "\<exists>feats :: real feats. read_features dec_int dec_float ?lines = Inr feats"
    by (simp add: read_features_def features_line_def py_index_def set_ngram_def
          update_order_def init_feats_def Let_def defs)
  then obtain feats :: "real feats" where
    run: "read_features dec_int dec_float ?lines = Inr feats" by blast
  from ngram_order_bounds[OF run] os
  have "min_ngram_order feats = 2" "max_ngram_order feats = 3" by simp_all
  with run os show ?thesis by simp
qed


subsection \<open>The probability table\<close>

lemma probs_line_step:
  assumes len: "length flds = 2" and idx: "pint (flds ! 0) = Some idx" "0 \<le> idx"
    and p: "pfloat (flds ! 1) = Some p"
  shows "\<exists>tbl'. probs_line pint pfloat tbl flds = Inr tbl'
           \<and> length tbl' = max (length tbl) (nat idx + 1)
           \<and> slots tbl' = (slots tbl)(idx := Some p)"
proof (cases "int (length tbl) \<le> idx")
  case True
  let ?ext = "tbl @ replicate (nat (idx - int (length tbl) + 1)) None"
  from True idx have l: "length ?ext = nat idx + 1" by auto
  with idx have run: "probs_line pint pfloat tbl flds = Inr (?ext[nat idx := Some p])"
    using len p True by (simp add: probs_line_def py_set_item_def)
  have "slots (?ext[nat idx := Some p]) i = ((slots tbl)(idx := Some p)) i" for i
    using True idx l by (auto simp: slots_def nth_list_update nth_append)
  then have "slots (?ext[nat idx := Some p]) = (slots tbl)(idx := Some p)" by (rule ext)
  with run l True idx show ?thesis by (auto simp: max_def)
next
  case False
  with idx have run: "probs_line pint pfloat tbl flds = Inr (tbl[nat idx := Some p])"
    using len p by (simp add: probs_line_def py_set_item_def)
  have "slots (tbl[nat idx := Some p]) i = ((slots tbl)(idx := Some p)) i" for i
    using False idx by (auto simp: slots_def nth_list_update)
  then have "slots (tbl[nat idx := Some p]) = (slots tbl)(idx := Some p)" by (rule ext)
  with run False idx show ?thesis by (auto simp: max_def)
qed

lemma probs_loop:
  assumes "\<forall>line \<in> set lines. length (py_split line) = 2 \<and>
             (\<exists>i. pint (py_split line ! 0) = Some i \<and> 0 \<le> i) \<and>
             pfloat (py_split line ! 1) \<noteq> None"
  shows "\<exists>tbl'. for_lines (probs_line pint pfloat) tbl lines = Inr tbl'
           \<and> length tbl' = Max (set (length tbl # map (\<lambda>i. nat i + 1) (prob_ids pint lines)))
           \<and> slots tbl' = slots tbl ++
                 map_of (rev (zip (prob_ids pint lines) (prob_vals pfloat lines)))"
  using assms
proof (induction lines arbitrary: tbl)
  case Nil
  show ?case by (simp add: prob_ids_def prob_vals_def)
next
  case (Cons line rest)
  from Cons.prems obtain idx p where len: "length (py_split line) = 2"
    and idx: "pint (py_split line ! 0) = Some idx" "0 \<le> idx"
    and p: "pfloat (py_split line ! 1) = Some p" by auto
  from probs_line_step[where flds = "py_split line" and pint = pint and pfloat = pfloat
      and tbl = tbl, OF len idx p] obtain tbl1 where
    one: "probs_line pint pfloat tbl (py_split line) = Inr tbl1"
    and l1: "length tbl1 = max (length tbl) (nat idx + 1)"
    and s1: "slots tbl1 = (slots tbl)(idx := Some p)" by blast
  from Cons.prems have wf: "\<forall>line \<in> set rest. length (py_split line) = 2 \<and>
             (\<exists>i. pint (py_split line ! 0) = Some i \<and> 0 \<le> i) \<and>
             pfloat (py_split line ! 1) \<noteq> None" by simp
  from Cons.IH[OF wf, of tbl1] obtain tbl' where
    more: "for_lines (probs_line pint pfloat) tbl1 rest = Inr tbl'"
    and l2: "length tbl' = Max (set (length tbl1 # map (\<lambda>i. nat i + 1) (prob_ids pint rest)))"
    and s2: "slots tbl' = slots tbl1 ++
                 map_of (rev (zip (prob_ids pint rest) (prob_vals pfloat rest)))" by blast
  have ids: "prob_ids pint (line # rest) = idx # prob_ids pint rest"
    and vals: "prob_vals pfloat (line # rest) = p # prob_vals pfloat rest"
    using idx p by (simp_all add: prob_ids_def prob_vals_def)
  have run: "for_lines (probs_line pint pfloat) tbl (line # rest) = Inr tbl'"
    using one more by simp
  have "Max (set (length tbl1 # map (\<lambda>i. nat i + 1) (prob_ids pint rest))) =
        Max (set (length tbl # map (\<lambda>i. nat i + 1) (idx # prob_ids pint rest)))"
    unfolding Max.set_eq_fold l1 by (simp add: max.commute)
  with l2 ids have len': "length tbl' =
      Max (set (length tbl # map (\<lambda>i. nat i + 1) (prob_ids pint (line # rest))))" by simp
  have "slots tbl' = slots tbl ++
          map_of (rev (zip (prob_ids pint (line # rest)) (prob_vals pfloat (line # rest))))"
    unfolding s2 s1 ids vals
    by (rule ext) (simp add: map_add_def split: option.split)
  with run len' show ?case by blast
qed


text \<open>
  C2, as the source has it. \<^verbatim>\<open>read_unigram_probs\<close> never sees the vocabulary: it checks
  the slots of its own list only (lines 61 and 62). With the ids 0 and 1 in the vocabulary
  and a probability for id 0 alone, both files load, and the missing entry of id 1 shows
  only when the extractor reads it. Nor is the sign of a probability checked: \<^verbatim>\<open>0.0\<close>
  loads.
\<close>

theorem vocab_id_without_probability:
  "read_vocab dec_int [''<eps> 0'', ''cat 1''] = Inr [(''<eps>'', 0), (''cat'', 1)]
   \<and> read_unigram_probs dec_int dec_float [''0 0.5''] = Inr [1 / 2]
   \<and> get_feature_list real_ops (init_feats\<lparr>unigram := Some (3, 2, 4)\<rparr>) [1 / 2] ''cat'' 1
       = Inl IndexError
   \<and> read_unigram_probs dec_int dec_float [''0 0.0''] = Inr [0]"
proof -
  note defs = py_split_def is_space_def dec_int_def dec_nat_def digit_of_def dec_float_def
  have "read_vocab dec_int [''<eps> 0'', ''cat 1''] = Inr [(''<eps>'', 0), (''cat'', 1)]"
    by (simp add: read_vocab_def vocab_line_def enumerate_eq_zip defs)
  moreover have "read_unigram_probs dec_int dec_float [''0 0.5''] = Inr [1 / 2]"
    by (simp add: read_unigram_probs_def probs_line_def py_set_item_def defs)
  moreover have "get_feature_list real_ops (init_feats\<lparr>unigram := Some (3, 2, 4)\<rparr>)
                   [1 / 2] ''cat'' 1 = Inl IndexError"
    by (simp add: get_feature_list_def init_feats_def py_index_def)
  moreover have "read_unigram_probs dec_int dec_float [''0 0.0''] = Inr [0]"
    by (simp add: read_unigram_probs_def probs_line_def py_set_item_def defs)
  ultimately show ?thesis by blast
qed

text \<open>
  C2, amended. The statement is about a probability file whose lines are well formed:
  each has two fields, an integer that is not negative (an id) and a float. On such a
  file \<^verbatim>\<open>read_unigram_probs\<close> fails the assertion \<^verbatim>\<open>prob is not None\<close> exactly when
  some id from 0 to the largest id of the file has no line in the file; otherwise it
  returns the table with one entry for each of these ids, the probability of the last
  line with that id. The vocabulary is no argument of the reader, and the probabilities
  are whatever floats the lines hold, positive or not.
\<close>

theorem read_unigram_probs_contract:
  assumes "\<forall>line \<in> set lines. length (py_split line) = 2 \<and>
             (\<exists>i. pint (py_split line ! 0) = Some i \<and> 0 \<le> i) \<and>
             pfloat (py_split line ! 1) \<noteq> None"
  shows "read_unigram_probs pint pfloat lines =
           (if \<exists>i < table_size (prob_ids pint lines). int i \<notin> set (prob_ids pint lines)
            then Inl AssertMissingProb
            else Inr (map (\<lambda>i. the (map_of (rev (zip (prob_ids pint lines)
                                                     (prob_vals pfloat lines))) (int i)))
                          [0 ..< table_size (prob_ids pint lines)]))"
proof -
  let ?ids = "prob_ids pint lines" and ?vals = "prob_vals pfloat lines"
  let ?m = "map_of (rev (zip ?ids ?vals))"
  let ?n = "table_size ?ids"
  from probs_loop[OF assms, of "[]"] obtain tbl where
    run: "for_lines (probs_line pint pfloat) [] lines = Inr tbl"
    and len: "length tbl = ?n"
    and sl: "slots tbl = slots [] ++ ?m"
    by (auto simp: table_size_def)
  have "slots [] = (Map.empty :: int \<Rightarrow> 'a option)" by (rule ext) (auto simp: slots_def)
  with sl have sl': "slots tbl = ?m" by simp
  have el: "tbl ! i = ?m (int i)" if "i < ?n" for i
    using that len sl'[symmetric] by (simp add: slots_def)
  have "length ?ids = length ?vals" by (simp add: prob_ids_def prob_vals_def)
  then have "map fst (zip ?ids ?vals) = ?ids" by (rule map_fst_zip)
  then have keys: "fst ` set (zip ?ids ?vals) = set ?ids" by (metis list.set_map)
  have dom: "?m k = None \<longleftrightarrow> k \<notin> set ?ids" for k
    by (simp add: map_of_eq_None_iff keys)
  have none: "None \<in> set tbl \<longleftrightarrow> (\<exists>i < ?n. int i \<notin> set ?ids)"
  proof
    assume "None \<in> set tbl"
    then obtain i where "i < length tbl" "tbl ! i = None" by (auto simp: in_set_conv_nth)
    with len el dom show "\<exists>i < ?n. int i \<notin> set ?ids" by auto
  next
    assume "\<exists>i < ?n. int i \<notin> set ?ids"
    then obtain i where i: "i < ?n" "int i \<notin> set ?ids" by blast
    with el dom have "tbl ! i = None" by simp
    with i len show "None \<in> set tbl" by (metis nth_mem)
  qed
  have vals: "map the tbl = map (\<lambda>i. the (?m (int i))) [0 ..< ?n]"
    by (rule nth_equalityI) (simp_all add: len el)
  show ?thesis
    by (simp only: read_unigram_probs_def run sum.case none vals split: if_split)
qed


theorem read_unigram_probs_contract_witness:
  "read_unigram_probs dec_int dec_float [''1 0.25'', ''0 0.5''] = Inr [1 / 2, 1 / 4]
   \<and> read_unigram_probs dec_int dec_float [''1 0.01''] = Inl AssertMissingProb"
proof -
  note defs = py_split_def is_space_def dec_int_def dec_nat_def digit_of_def dec_float_def
  have f: "dec_float ''0.25'' = Some (1 / 4)" "dec_float ''0.5'' = Some (1 / 2)"
    "dec_float ''0.01'' = Some (1 / 100)"
    by (simp_all add: defs)
  have sp: "py_split ''1 0.25'' = [''1'', ''0.25'']" "py_split ''0 0.5'' = [''0'', ''0.5'']"
    "py_split ''1 0.01'' = [''1'', ''0.01'']"
    by (simp_all add: defs)
  have d: "dec_int ''1'' = Some 1" "dec_int ''0'' = Some 0"
    by (simp_all add: defs)
  have wf1: "\<forall>line \<in> set [''1 0.25'', ''0 0.5'']. length (py_split line) = 2 \<and>
             (\<exists>i. dec_int (py_split line ! 0) = Some i \<and> 0 \<le> i) \<and>
             dec_float (py_split line ! 1) \<noteq> None"
    and wf2: "\<forall>line \<in> set [''1 0.01'']. length (py_split line) = 2 \<and>
             (\<exists>i. dec_int (py_split line ! 0) = Some i \<and> 0 \<le> i) \<and>
             dec_float (py_split line ! 1) \<noteq> None"
    by (simp_all add: sp f d del: not_None_eq)
  have i1: "prob_ids dec_int [''1 0.25'', ''0 0.5''] = [1, 0]"
    and v1: "prob_vals dec_float [''1 0.25'', ''0 0.5''] = [1 / 4, 1 / 2]"
    and i2: "prob_ids dec_int [''1 0.01''] = [1]"
    by (simp_all add: prob_ids_def prob_vals_def sp f d)
  have n1: "table_size [1, 0] = 2" and n2: "table_size [1] = 2"
    by (simp_all add: table_size_def)
  have u: "[0 ..< 2] = [0, Suc 0]" by (simp add: upt_rec)
  have "read_unigram_probs dec_int dec_float [''1 0.25'', ''0 0.5''] = Inr [1 / 2, 1 / 4]"
    unfolding read_unigram_probs_contract[OF wf1] i1 v1 n1
    by (auto simp: less_2_cases_iff u)
  moreover have "read_unigram_probs dec_int dec_float [''1 0.01''] = Inl AssertMissingProb"
    unfolding read_unigram_probs_contract[OF wf2] i2 n2
    by (auto simp: less_2_cases_iff)
  ultimately show ?thesis by blast
qed


text \<open>
  A line with a negative id is outside the statement above. The reader does not reject
  it: \<^verbatim>\<open>idx >= len(unigram_probs)\<close> is false, no slot is added, and the assignment
  \<^verbatim>\<open>unigram_probs[idx] = ...\<close> indexes from the end of the table built so far, or raises
  \<^verbatim>\<open>IndexError\<close> when the table is shorter than that.
\<close>

lemma probs_line_negative_id:
  assumes "length flds = 2" and "pint (flds ! 0) = Some idx" and "idx < 0"
    and "pfloat (flds ! 1) = Some p"
  shows "probs_line pint pfloat tbl flds =
           (if - int (length tbl) \<le> idx
            then Inr (tbl[nat (int (length tbl) + idx) := Some p])
            else Inl IndexError)"
  using assms by (simp add: probs_line_def py_set_item_def)

subsection \<open>A loaded dictionary scans the orders of its n-grams\<close>

text \<open>
  Every key of the match dict of a loaded dictionary has its length within the range of
  orders, and every key of the initial and final dicts its length plus one: the running
  minimum only falls and the running maximum only rises. So the scan reaches every
  n-gram of the dictionary it was loaded with.
\<close>

lemma update_order_dicts:
  "match (update_order k fs) = match fs"
  "initial (update_order k fs) = initial fs"
  "final (update_order k fs) = final fs"
  by (simp_all add: update_order_def Let_def)

lemma features_line_cover:
  assumes run: "features_line pint pfloat fs flds = Inr fs'"
    and inv: "\<forall>g. (match fs g \<noteq> None \<longrightarrow>
                 min_ngram_order fs \<le> int (length g) \<and> int (length g) \<le> max_ngram_order fs)
              \<and> (initial fs g \<noteq> None \<or> final fs g \<noteq> None \<longrightarrow>
                 min_ngram_order fs \<le> int (length g) + 1 \<and>
                 int (length g) + 1 \<le> max_ngram_order fs)"
  shows "\<forall>g. (match fs' g \<noteq> None \<longrightarrow>
                 min_ngram_order fs' \<le> int (length g) \<and> int (length g) \<le> max_ngram_order fs')
              \<and> (initial fs' g \<noteq> None \<or> final fs' g \<noteq> None \<longrightarrow>
                 min_ngram_order fs' \<le> int (length g) + 1 \<and>
                 int (length g) + 1 \<le> max_ngram_order fs')"
proof -
  from run obtain feat_id where len: "length flds \<in> {2, 3, 4}"
    and fid: "pint (flds ! 0) = Some feat_id"
    by (auto simp: features_line_def split: if_splits option.splits)
  consider (m) "flds ! 1 = ''match''" | (i) "flds ! 1 = ''initial''" | (f) "flds ! 1 = ''final''"
    | (o) "flds ! 1 \<notin> {''match'', ''initial'', ''final''}"
    by blast
  then show ?thesis
  proof cases
    case m
    with run len fid obtain g0 where
      fs': "fs' = update_order (int (length g0)) (set_ngram ''match'' g0 feat_id fs)"
      by (auto simp: features_line_def Let_def split: sum.splits)
    show ?thesis
      using inv unfolding fs'
      by (auto simp: update_order_min update_order_max update_order_dicts set_ngram_def
               min_def max_def)
  next
    case i
    with run len fid obtain g0 where
      fs': "fs' = update_order (int (length g0) + 1) (set_ngram ''initial'' g0 feat_id fs)"
      by (auto simp: features_line_def Let_def split: sum.splits)
    show ?thesis
      using inv unfolding fs'
      by (auto simp: update_order_min update_order_max update_order_dicts set_ngram_def
               min_def max_def)
  next
    case f
    with run len fid obtain g0 where
      fs': "fs' = update_order (int (length g0) + 1) (set_ngram ''final'' g0 feat_id fs)"
      by (auto simp: features_line_def Let_def split: sum.splits)
    show ?thesis
      using inv unfolding fs'
      by (auto simp: update_order_min update_order_max update_order_dicts set_ngram_def
               min_def max_def)
  next
    case o
    with run len fid have "match fs' = match fs \<and> initial fs' = initial fs \<and> final fs' = final fs
        \<and> min_ngram_order fs' = min_ngram_order fs \<and> max_ngram_order fs' = max_ngram_order fs"
      by (auto simp: features_line_def Let_def set_ngram_def split: sum.splits if_splits)
    with inv show ?thesis by simp
  qed
qed

lemma features_loop_cover:
  assumes "for_lines (features_line pint pfloat) fs lines = Inr fs'"
    and "\<forall>g. (match fs g \<noteq> None \<longrightarrow>
                 min_ngram_order fs \<le> int (length g) \<and> int (length g) \<le> max_ngram_order fs)
              \<and> (initial fs g \<noteq> None \<or> final fs g \<noteq> None \<longrightarrow>
                 min_ngram_order fs \<le> int (length g) + 1 \<and>
                 int (length g) + 1 \<le> max_ngram_order fs)"
  shows "\<forall>g. (match fs' g \<noteq> None \<longrightarrow>
                 min_ngram_order fs' \<le> int (length g) \<and> int (length g) \<le> max_ngram_order fs')
              \<and> (initial fs' g \<noteq> None \<or> final fs' g \<noteq> None \<longrightarrow>
                 min_ngram_order fs' \<le> int (length g) + 1 \<and>
                 int (length g) + 1 \<le> max_ngram_order fs')"
  using assms
proof (induction lines arbitrary: fs)
  case Nil
  then show ?case by simp
next
  case (Cons line rest)
  from Cons.prems(1) obtain fs1 where
    one: "features_line pint pfloat fs (py_split line) = Inr fs1"
    and more: "for_lines (features_line pint pfloat) fs1 rest = Inr fs'"
    by (auto split: sum.splits)
  from Cons.IH[OF more features_line_cover[OF one Cons.prems(2)]] show ?case .
qed

lemma loaded_orders_cover:
  assumes "read_features pint pfloat lines = Inr feats"
  shows "(match feats g = Some f \<longrightarrow>
            min_ngram_order feats \<le> int (length g) \<and> int (length g) \<le> max_ngram_order feats)
       \<and> (initial feats g = Some f \<or> final feats g = Some f \<longrightarrow>
            min_ngram_order feats \<le> int (length g) + 1 \<and>
            int (length g) + 1 \<le> max_ngram_order feats)"
proof -
  from assms have "for_lines (features_line pint pfloat) init_feats lines = Inr feats"
    by (simp add: read_features_def)
  from features_loop_cover[OF this] show ?thesis by (auto simp: init_feats_def)
qed


end
